theory Spec2Isabelle
  imports Complex_Main "HOL-Library.Multiset"
begin

section \<open>JavaScript values crossing the adapter boundary\<close>

text \<open>
  The wishlist application keeps travel destinations in one table, behind an adapter with
  two backends (a local SQLite file, a hosted Postgres) and two HTTP route modules. The
  embedding follows \<open>src/lib/db.ts\<close> and the two route modules function by function;
  the backend is a table held in the state, with the column types of the two
  \<open>CREATE TABLE\<close> statements.

  A JavaScript number is modelled as an exact rational, or \<open>NaN\<close> (what \<open>parseInt\<close> and
  \<open>parseFloat\<close> return on text that holds no numeral). Binary rounding of doubles is not
  modelled. Values read from a driver row are dynamically typed: \<open>normalizeRow\<close> asks
  \<open>typeof\<close> of them, so they carry their runtime type. Request bodies are modelled with
  properties of their declared type, \<open>null\<close> or absent.
\<close>

datatype jsnum = NaN | Num rat

datatype jsval = JNull | JNum jsnum | JStr string

text \<open>
  A field of a parsed JSON request body, or of a \<open>Partial<NewTravelDestination>\<close>:
  absent (\<open>undefined\<close>), \<open>null\<close>, or a value of the declared type.
\<close>

datatype 'a field = Absent | Null | Val 'a

subsection \<open>Truthiness and the \<open>||\<close> defaults\<close>

fun falsy_str :: "string field \<Rightarrow> bool" where
  "falsy_str Absent = True"
| "falsy_str Null = True"
| "falsy_str (Val s) = (s = [])"

fun falsy_num :: "rat field \<Rightarrow> bool" where
  "falsy_num Absent = True"
| "falsy_num Null = True"
| "falsy_num (Val q) = (q = 0)"

text \<open>\<open>x || d\<close> for a string-typed and for a number-typed field.\<close>

fun or_str :: "string field \<Rightarrow> string \<Rightarrow> string" where
  "or_str (Val s) d = (if s = [] then d else s)"
| "or_str _ d = d"

fun or_num :: "rat field \<Rightarrow> rat \<Rightarrow> rat" where
  "or_num (Val q) d = (if q = 0 then d else q)"
| "or_num _ d = d"

subsection \<open>\<open>parseInt\<close> and \<open>parseFloat\<close>\<close>

text \<open>
  A character of a string is a code unit below 256. Of the white space and line
  terminators that \<open>parseInt\<close> and \<open>parseFloat\<close> skip, those are U+0009 to U+000D,
  the space and the no-break space U+00A0; the others (U+FEFF, U+2028, U+2029, the
  space separators from U+1680 on) are not characters of the model.
\<close>

definition is_ws :: "char \<Rightarrow> bool" where
  "is_ws c = (c = CHR '' '' \<or> (9 \<le> (of_char c :: nat) \<and> (of_char c :: nat) \<le> 13) \<or>
     (of_char c :: nat) = 160)"

text \<open>The value of a character as a digit of a radix up to 36, if it is one.\<close>

definition digit_of :: "char \<Rightarrow> nat option" where
  "digit_of c = (let n = (of_char c :: nat) in
     if 48 \<le> n \<and> n \<le> 57 then Some (n - 48)
     else if 97 \<le> n \<and> n \<le> 122 then Some (n - 87)
     else if 65 \<le> n \<and> n \<le> 90 then Some (n - 55)
     else None)"

definition is_digit_in :: "nat \<Rightarrow> char \<Rightarrow> bool" where
  "is_digit_in R c = (case digit_of c of None \<Rightarrow> False | Some d \<Rightarrow> d < R)"

definition digits_val :: "nat \<Rightarrow> string \<Rightarrow> nat" where
  "digits_val R ds = foldl (\<lambda>a c. a * R + the (digit_of c)) 0 ds"

text \<open>Splits an optional sign off: \<open>True\<close> for a leading minus.\<close>

fun take_sign :: "string \<Rightarrow> bool \<times> string" where
  "take_sign [] = (False, [])"
| "take_sign (c # cs) =
     (if c = CHR ''-'' then (True, cs) else if c = CHR ''+'' then (False, cs) else (False, c # cs))"

definition has_hex_prefix :: "string \<Rightarrow> bool" where
  "has_hex_prefix s = (take 2 s = ''0x'' \<or> take 2 s = ''0X'')"

text \<open>
  \<open>parseInt(s, radix)\<close>; \<open>None\<close> is an omitted radix. Leading white space is skipped, a
  sign is read, a \<open>0x\<close> prefix selects radix 16 when the radix is omitted, 0 or 16, and the
  longest prefix of digits of the radix is the value; no digit gives \<open>NaN\<close>.
\<close>

definition parseInt :: "string \<Rightarrow> nat option \<Rightarrow> jsnum" where
  "parseInt s radix =
    (let (neg, t) = take_sign (dropWhile is_ws s);
         R0 = (case radix of None \<Rightarrow> 0 | Some r \<Rightarrow> r)
     in if R0 \<noteq> 0 \<and> (R0 < 2 \<or> 36 < R0) then NaN
        else
          let strip = (R0 = 0 \<or> R0 = 16);
              hex = (strip \<and> has_hex_prefix t);
              R = (if hex then 16 else if R0 = 0 then 10 else R0);
              u = (if hex then drop 2 t else t);
              z = takeWhile (is_digit_in R) u
          in if z = [] then NaN
             else Num (of_int ((if neg then - 1 else 1) * int (digits_val R z))))"

text \<open>An optional exponent part \<open>e[+-]digits\<close>: the power of ten it denotes.\<close>

definition exponent_of :: "string \<Rightarrow> rat" where
  "exponent_of s =
    (case s of
       [] \<Rightarrow> 1
     | c # cs \<Rightarrow>
         if c = CHR ''e'' \<or> c = CHR ''E'' then
           (let (neg, t) = take_sign cs; z = takeWhile (is_digit_in 10) t
            in if z = [] then 1
               else if neg then 1 / 10 ^ digits_val 10 z else 10 ^ digits_val 10 z)
         else 1)"

text \<open>
  \<open>parseFloat(s)\<close> on decimal numerals: white space, sign, integer digits, an optional
  fraction, an optional exponent; \<open>NaN\<close> when there is no digit. The literal
  \<open>Infinity\<close> has no counterpart in \<^typ>\<open>jsnum\<close> and is read as \<open>NaN\<close>.
\<close>

definition parseFloat :: "string \<Rightarrow> jsnum" where
  "parseFloat s =
    (let (neg, t) = take_sign (dropWhile is_ws s);
         ip = takeWhile (is_digit_in 10) t;
         r1 = dropWhile (is_digit_in 10) t;
         fp = (case r1 of [] \<Rightarrow> [] | c # cs \<Rightarrow>
                 if c = CHR ''.'' then takeWhile (is_digit_in 10) cs else []);
         r2 = (case r1 of [] \<Rightarrow> [] | c # cs \<Rightarrow>
                 if c = CHR ''.'' then dropWhile (is_digit_in 10) cs else r1)
     in if ip = [] \<and> fp = [] then NaN
        else
          let m = (of_nat (digits_val 10 ip) + of_nat (digits_val 10 fp) / 10 ^ length fp) * exponent_of r2
          in Num (if neg then - m else m))"


section \<open>The table \<open>travel_destinations\<close>\<close>

text \<open>
  One row of the table, typed by the columns of the two \<open>CREATE TABLE\<close> statements. A
  timestamp is a reading of the store's clock (\<open>CURRENT_TIMESTAMP\<close>); the timestamp
  columns and \<open>image_url\<close> are nullable. The store keeps its rows in insertion order and
  the next value of the \<open>AUTOINCREMENT\<close> / \<open>SERIAL\<close> key.
\<close>

type_synonym timestamp = nat

record stored_row =
  col_id :: int
  col_rank :: rat
  col_destination :: string
  col_country :: string
  col_latitude :: rat
  col_longitude :: rat
  col_reason :: string
  col_budget :: string
  col_timeline :: string
  col_image_url :: "string option"
  col_created_at :: "timestamp option"
  col_updated_at :: "timestamp option"

record database =
  table :: "stored_row list"
  next_id :: int

definition empty_db :: database where
  "empty_db = \<lparr>table = [], next_id = 1\<rparr>"

datatype db_error = NotNullViolation | NumericOverflow | InvalidInteger | DatatypeMismatch | BackendFault

subsection \<open>Column types of the two backends\<close>

text \<open>
  The hosted store declares \<open>latitude DECIMAL(10, 8)\<close> and \<open>longitude DECIMAL(11, 8)\<close>: a
  value is rounded to the scale (half away from zero) and rejected when its integer part
  needs more digits than precision minus scale. Its \<open>INTEGER\<close> columns take 32-bit
  integers only. The local store keeps a number as it is bound.
\<close>

definition pg_round :: "nat \<Rightarrow> rat \<Rightarrow> rat" where
  "pg_round sc q =
     (if q < 0 then - 1 else 1) * rat_of_int \<lfloor>\<bar>q\<bar> * 10 ^ sc + 1 / 2\<rfloor> / 10 ^ sc"

definition store_decimal :: "bool \<Rightarrow> nat \<Rightarrow> nat \<Rightarrow> rat \<Rightarrow> db_error + rat" where
  "store_decimal hosted p sc q =
     (if \<not> hosted then Inr q
      else let r = pg_round sc q
           in if \<bar>r\<bar> < 10 ^ (p - sc) then Inr r else Inl NumericOverflow)"

definition is_int4 :: "rat \<Rightarrow> bool" where
  "is_int4 q = (q = rat_of_int \<lfloor>q\<rfloor> \<and> - 2147483648 \<le> q \<and> q \<le> 2147483647)"

definition store_integer :: "bool \<Rightarrow> rat \<Rightarrow> db_error + rat" where
  "store_integer hosted q = (if hosted \<and> \<not> is_int4 q then Inl InvalidInteger else Inr q)"

text \<open>
  Binding a JavaScript value to a \<open>NOT NULL\<close> numeric column. \<open>null\<close> violates the
  constraint. The adapter never binds \<open>NaN\<close> or a string there (it binds body numbers and
  the numeric fields of a row it has read); the model rejects them.
\<close>

fun bind_number :: "jsval \<Rightarrow> db_error + rat" where
  "bind_number (JNum (Num q)) = Inr q"
| "bind_number JNull = Inl NotNullViolation"
| "bind_number (JNum NaN) = Inl NotNullViolation"
| "bind_number (JStr s) = Inl DatatypeMismatch"

fun bind_text :: "string option \<Rightarrow> db_error + string" where
  "bind_text None = Inl NotNullViolation"
| "bind_text (Some s) = Inr s"

text \<open>The values of one \<open>INSERT\<close> or full-row \<open>UPDATE\<close>, in column order.\<close>

record bound_values =
  v_rank :: jsval
  v_destination :: "string option"
  v_country :: "string option"
  v_latitude :: jsval
  v_longitude :: jsval
  v_reason :: "string option"
  v_budget :: "string option"
  v_timeline :: "string option"
  v_image_url :: "string option"

text \<open>Sequencing of fallible steps: the first error ends the statement.\<close>

definition and_then :: "'e + 'a \<Rightarrow> ('a \<Rightarrow> 'e + 'b) \<Rightarrow> 'e + 'b" where
  "and_then x f = (case x of Inl e \<Rightarrow> Inl e | Inr a \<Rightarrow> f a)"

text \<open>
  Checks and converts the bound values against the column types; the first failing column
  gives the error. The key and the timestamps are filled in by the caller.
\<close>

definition coerce_values :: "bool \<Rightarrow> bound_values \<Rightarrow> stored_row \<Rightarrow> db_error + stored_row" where
  "coerce_values hosted v r =
     and_then (and_then (bind_number (v_rank v)) (store_integer hosted)) (\<lambda>rk.
     and_then (bind_text (v_destination v)) (\<lambda>de.
     and_then (bind_text (v_country v)) (\<lambda>co.
     and_then (and_then (bind_number (v_latitude v)) (store_decimal hosted 10 8)) (\<lambda>la.
     and_then (and_then (bind_number (v_longitude v)) (store_decimal hosted 11 8)) (\<lambda>lo.
     and_then (bind_text (v_reason v)) (\<lambda>re.
     and_then (bind_text (v_budget v)) (\<lambda>bu.
     and_then (bind_text (v_timeline v)) (\<lambda>ti.
       Inr (r\<lparr>col_rank := rk, col_destination := de, col_country := co,
              col_latitude := la, col_longitude := lo, col_reason := re,
              col_budget := bu, col_timeline := ti, col_image_url := v_image_url v\<rparr>)))))))))"

subsection \<open>The SQL statements the adapter issues\<close>

text \<open>
  \<open>SELECT * ... ORDER BY rank ASC\<close>. The statement has no second sort key, so rows of
  equal rank come in the order in which the backend reads them, which is the backend's
  and may differ from one query to the next (the hosted store writes an updated row as a
  new version at another place of its heap). A query takes that order as the position the
  backend gives the row of each key; rows are listed by rank, rows of equal rank by
  position, in storage order where that is equal too.
\<close>

type_synonym heap_order = "int \<Rightarrow> nat"

definition select_all :: "heap_order \<Rightarrow> database \<Rightarrow> stored_row list" where
  "select_all pos db = sort_key col_rank (sort_key (\<lambda>r. pos (col_id r)) (table db))"

text \<open>
  The rows a \<open>WHERE id = ?\<close> selects. The hosted store rejects a parameter that is not a
  32-bit integer (\<open>NaN\<close> included); the local store binds \<open>NaN\<close> as \<open>NULL\<close>, which
  equals no key.
\<close>

definition id_param :: "bool \<Rightarrow> jsnum \<Rightarrow> db_error + rat option" where
  "id_param hosted k =
     (case k of
        NaN \<Rightarrow> if hosted then Inl InvalidInteger else Inr None
      | Num q \<Rightarrow> if hosted \<and> \<not> is_int4 q then Inl InvalidInteger else Inr (Some q))"

definition has_id :: "rat option \<Rightarrow> stored_row \<Rightarrow> bool" where
  "has_id k r = (k = Some (rat_of_int (col_id r)))"

definition select_by_id :: "bool \<Rightarrow> database \<Rightarrow> jsnum \<Rightarrow> db_error + stored_row list" where
  "select_by_id hosted db k =
     and_then (id_param hosted k) (\<lambda>q. Inr (filter (has_id q) (table db)))"

text \<open>
  \<open>INSERT INTO ... VALUES (...)\<close>: the key is the next one (a 32-bit \<open>SERIAL\<close> on the
  hosted store), both timestamps the clock.
\<close>

definition insert_row :: "bool \<Rightarrow> timestamp \<Rightarrow> database \<Rightarrow> bound_values \<Rightarrow> db_error + stored_row \<times> database" where
  "insert_row hosted now db v =
     and_then (store_integer hosted (rat_of_int (next_id db))) (\<lambda>_.
     and_then
       (coerce_values hosted v
          \<lparr>col_id = next_id db, col_rank = 0, col_destination = [], col_country = [],
           col_latitude = 0, col_longitude = 0, col_reason = [], col_budget = [],
           col_timeline = [], col_image_url = None,
           col_created_at = Some now, col_updated_at = Some now\<rparr>)
       (\<lambda>r. Inr (r, \<lparr>table = table db @ [r], next_id = next_id db + 1\<rparr>)))"

text \<open>
  \<open>UPDATE ... SET rank = ?, ..., updated_at = CURRENT_TIMESTAMP WHERE id = ?\<close>. The new
  values are checked when a row is selected; the result holds the rows as changed
  (\<open>RETURNING *\<close>).
\<close>

definition set_row :: "bool \<Rightarrow> timestamp \<Rightarrow> bound_values \<Rightarrow> stored_row \<Rightarrow> db_error + stored_row" where
  "set_row hosted now v r =
     and_then (coerce_values hosted v r) (\<lambda>r'. Inr (r'\<lparr>col_updated_at := Some now\<rparr>))"

fun update_rows :: "(stored_row \<Rightarrow> db_error + stored_row) \<Rightarrow> rat option \<Rightarrow> stored_row list \<Rightarrow> db_error + stored_row list" where
  "update_rows f q [] = Inr []"
| "update_rows f q (r # rs) =
     (if has_id q r
      then and_then (f r) (\<lambda>r'. and_then (update_rows f q rs) (\<lambda>rs'. Inr (r' # rs')))
      else and_then (update_rows f q rs) (\<lambda>rs'. Inr (r # rs')))"

definition update_row :: "bool \<Rightarrow> timestamp \<Rightarrow> database \<Rightarrow> jsnum \<Rightarrow> bound_values \<Rightarrow> db_error + stored_row list \<times> database" where
  "update_row hosted now db k v =
     and_then (id_param hosted k) (\<lambda>q.
     and_then (update_rows (set_row hosted now v) q (table db)) (\<lambda>t'.
       Inr (filter (has_id q) t', db\<lparr>table := t'\<rparr>)))"

text \<open>\<open>UPDATE ... SET rank = ?, updated_at = CURRENT_TIMESTAMP WHERE id = ?\<close>.\<close>

definition set_rank :: "timestamp \<Rightarrow> rat \<Rightarrow> stored_row \<Rightarrow> stored_row" where
  "set_rank now rk r = r\<lparr>col_rank := rk, col_updated_at := Some now\<rparr>"

definition update_rank :: "bool \<Rightarrow> timestamp \<Rightarrow> database \<Rightarrow> rat \<Rightarrow> rat \<Rightarrow> db_error + database" where
  "update_rank hosted now db k rk0 =
     and_then (id_param hosted (Num k)) (\<lambda>q.
     and_then (store_integer hosted rk0) (\<lambda>rk.
       Inr (db\<lparr>table := map (\<lambda>r. if has_id q r then set_rank now rk r else r) (table db)\<rparr>)))"

text \<open>\<open>DELETE ... WHERE id = ?\<close>, with the number of rows deleted.\<close>

definition delete_row :: "bool \<Rightarrow> database \<Rightarrow> jsnum \<Rightarrow> db_error + nat \<times> database" where
  "delete_row hosted db k =
     and_then (id_param hosted k) (\<lambda>q.
       Inr (length (filter (has_id q) (table db)),
            db\<lparr>table := filter (\<lambda>r. \<not> has_id q r) (table db)\<rparr>))"


section \<open>The persistence adapter (\<open>src/lib/db.ts\<close>)\<close>

record TravelDestination =
  id' :: jsval
  rank :: jsval
  destination :: string
  country :: string
  latitude :: jsval
  longitude :: jsval
  reason :: string
  budget :: string
  timeline :: string
  image_url :: "string option"
  created_at :: "timestamp option"
  updated_at :: "timestamp option"

text \<open>\<open>image_url\<close> is optional: \<open>None\<close> is an object without the property.\<close>

record NewTravelDestination =
  new_rank :: rat
  new_destination :: string
  new_country :: string
  new_latitude :: rat
  new_longitude :: rat
  new_reason :: string
  new_budget :: string
  new_timeline :: string
  new_image_url :: "string option"

text \<open>
  \<open>Partial<NewTravelDestination>\<close> as the item resource builds it, and the parsed JSON body
  of a request: every property may be absent or \<open>null\<close>.
\<close>

record PartialDestination =
  p_rank :: "rat field"
  p_destination :: "string field"
  p_country :: "string field"
  p_latitude :: "rat field"
  p_longitude :: "rat field"
  p_reason :: "string field"
  p_budget :: "string field"
  p_timeline :: "string field"
  p_image_url :: "string field"

subsection \<open>What the drivers hand back\<close>

text \<open>
  The text form of a \<open>DECIMAL\<close> value with \<open>sc\<close> fractional digits, as the hosted
  driver returns it: sign, integer digits, point, exactly \<open>sc\<close> digits.
\<close>

definition digit_char :: "nat \<Rightarrow> char" where
  "digit_char d = char_of (48 + d)"

fun nat_digits :: "nat \<Rightarrow> string" where
  "nat_digits n = (if n < 10 then [digit_char n] else nat_digits (n div 10) @ [digit_char (n mod 10)])"

declare nat_digits.simps [simp del]

fun frac_digits :: "nat \<Rightarrow> nat \<Rightarrow> string" where
  "frac_digits 0 m = []"
| "frac_digits (Suc w) m = frac_digits w (m div 10) @ [digit_char (m mod 10)]"

definition decimal_text :: "nat \<Rightarrow> rat \<Rightarrow> string" where
  "decimal_text sc q =
     (let n = nat \<lfloor>\<bar>q\<bar> * 10 ^ sc\<rfloor>
      in (if q < 0 then ''-'' else []) @ nat_digits (n div 10 ^ sc) @
         (if sc = 0 then [] else CHR ''.'' # frac_digits sc (n mod 10 ^ sc)))"

text \<open>
  A row as the driver returns it. Both drivers return integers as numbers; the hosted one
  returns \<open>DECIMAL\<close> columns as text, the local one \<open>REAL\<close> columns as numbers.
\<close>

definition driver_row :: "bool \<Rightarrow> stored_row \<Rightarrow> TravelDestination" where
  "driver_row hosted r =
     \<lparr>id' = JNum (Num (rat_of_int (col_id r))),
      rank = JNum (Num (col_rank r)),
      destination = col_destination r,
      country = col_country r,
      latitude = (if hosted then JStr (decimal_text 8 (col_latitude r)) else JNum (Num (col_latitude r))),
      longitude = (if hosted then JStr (decimal_text 8 (col_longitude r)) else JNum (Num (col_longitude r))),
      reason = col_reason r,
      budget = col_budget r,
      timeline = col_timeline r,
      image_url = col_image_url r,
      created_at = col_created_at r,
      updated_at = col_updated_at r\<rparr>"

subsection \<open>\<open>normalizeRow\<close>\<close>

fun float_if_string :: "jsval \<Rightarrow> jsval" where
  "float_if_string (JStr s) = JNum (parseFloat s)"
| "float_if_string v = v"

fun int_if_string :: "jsval \<Rightarrow> jsval" where
  "int_if_string (JStr s) = JNum (parseInt s (Some 10))"
| "int_if_string v = v"

definition normalizeRow :: "TravelDestination \<Rightarrow> TravelDestination" where
  "normalizeRow row =
     row\<lparr>latitude := float_if_string (latitude row),
         longitude := float_if_string (longitude row),
         rank := int_if_string (rank row),
         id' := int_if_string (id' row)\<rparr>"

subsection \<open>Backend failures\<close>

text \<open>
  Besides the errors the column types raise, any statement may fail in the backend
  (connection, driver). An adapter call takes the position of the statement that fails
  this way among the statements it issues, counted from 0, or \<open>None\<close> when none does.
  \<open>hosted\<close> is \<open>isProduction\<close>.
\<close>

type_synonym fault = "nat option"

subsection \<open>\<open>getAll\<close>\<close>

text \<open>Hosted: statement 0 creates the table if it is missing, statement 1 selects.\<close>

definition getAll :: "bool \<Rightarrow> fault \<Rightarrow> heap_order \<Rightarrow> database \<Rightarrow> TravelDestination list" where
  "getAll hosted fa pos db =
     (if hosted then
        (if fa = Some 0 \<or> fa = Some 1 then []
         else map (\<lambda>r. normalizeRow (driver_row True r)) (select_all pos db))
      else
        (if fa = Some 0 then []
         else map (driver_row False) (select_all pos db)))"

subsection \<open>\<open>getById\<close>\<close>

definition getById :: "bool \<Rightarrow> fault \<Rightarrow> database \<Rightarrow> jsnum \<Rightarrow> TravelDestination option" where
  "getById hosted fa db k =
     (if fa = Some 0 then None
      else case select_by_id hosted db k of
             Inl e \<Rightarrow> None
           | Inr [] \<Rightarrow> None
           | Inr (r # rs) \<Rightarrow>
               Some (if hosted then normalizeRow (driver_row True r) else driver_row False r))"

subsection \<open>\<open>create\<close>\<close>

text \<open>\<open>item.image_url || null\<close>\<close>

fun or_null :: "string option \<Rightarrow> string option" where
  "or_null None = None"
| "or_null (Some s) = (if s = [] then None else Some s)"

definition insert_values :: "NewTravelDestination \<Rightarrow> bound_values" where
  "insert_values item =
     \<lparr>v_rank = JNum (Num (new_rank item)),
      v_destination = Some (new_destination item),
      v_country = Some (new_country item),
      v_latitude = JNum (Num (new_latitude item)),
      v_longitude = JNum (Num (new_longitude item)),
      v_reason = Some (new_reason item),
      v_budget = Some (new_budget item),
      v_timeline = Some (new_timeline item),
      v_image_url = or_null (new_image_url item)\<rparr>"

text \<open>
  Hosted: statement 0 creates the table if missing, statement 1 is \<open>INSERT ... RETURNING *\<close>.
  Local: statement 0 is the \<open>INSERT\<close>, statement 1 selects the row of \<open>lastInsertRowid\<close>,
  which \<open>get\<close> returns or \<open>undefined\<close> (\<open>None\<close>). An error is rethrown (\<open>Inl\<close>).
\<close>

definition create :: "bool \<Rightarrow> fault \<Rightarrow> timestamp \<Rightarrow> database \<Rightarrow> NewTravelDestination \<Rightarrow> (db_error + TravelDestination option) \<times> database" where
  "create hosted fa now db item =
     (if fa = Some 0 then (Inl BackendFault, db)
      else if hosted then
        (if fa = Some 1 then (Inl BackendFault, db)
         else case insert_row True now db (insert_values item) of
                Inl e \<Rightarrow> (Inl e, db)
              | Inr (r, db') \<Rightarrow> (Inr (Some (normalizeRow (driver_row True r))), db'))
      else
        (case insert_row False now db (insert_values item) of
           Inl e \<Rightarrow> (Inl e, db)
         | Inr (r, db') \<Rightarrow>
             if fa = Some 1 then (Inl BackendFault, db')
             else (case select_by_id False db' (Num (rat_of_int (col_id r))) of
                     Inl e \<Rightarrow> (Inl e, db')
                   | Inr [] \<Rightarrow> (Inr None, db')
                   | Inr (r' # rs) \<Rightarrow> (Inr (Some (driver_row False r')), db'))))"

subsection \<open>\<open>update\<close>\<close>

text \<open>\<open>item.x !== undefined ? item.x : existing.x\<close>, for each kind of column.\<close>

fun pick_number :: "rat field \<Rightarrow> jsval \<Rightarrow> jsval" where
  "pick_number Absent ex = ex"
| "pick_number Null ex = JNull"
| "pick_number (Val q) ex = JNum (Num q)"

fun pick_text :: "string field \<Rightarrow> string option \<Rightarrow> string option" where
  "pick_text Absent ex = ex"
| "pick_text Null ex = None"
| "pick_text (Val s) ex = Some s"

definition update_values :: "PartialDestination \<Rightarrow> TravelDestination \<Rightarrow> bound_values" where
  "update_values item existing =
     \<lparr>v_rank = pick_number (p_rank item) (rank existing),
      v_destination = pick_text (p_destination item) (Some (destination existing)),
      v_country = pick_text (p_country item) (Some (country existing)),
      v_latitude = pick_number (p_latitude item) (latitude existing),
      v_longitude = pick_number (p_longitude item) (longitude existing),
      v_reason = pick_text (p_reason item) (Some (reason existing)),
      v_budget = pick_text (p_budget item) (Some (budget existing)),
      v_timeline = pick_text (p_timeline item) (Some (timeline existing)),
      v_image_url = pick_text (p_image_url item) (image_url existing)\<rparr>"

text \<open>
  Statement 0 is the \<open>getById\<close> of the existing row (which catches its own failure),
  statement 1 the \<open>UPDATE\<close>; the local branch then reads the row back with a second
  \<open>getById\<close>, statement 2. Every failure ends in \<open>undefined\<close> (\<open>None\<close>).
\<close>

definition update :: "bool \<Rightarrow> fault \<Rightarrow> timestamp \<Rightarrow> database \<Rightarrow> jsnum \<Rightarrow> PartialDestination \<Rightarrow> TravelDestination option \<times> database" where
  "update hosted fa now db k item =
     (case getById hosted fa db k of
        None \<Rightarrow> (None, db)
      | Some existing \<Rightarrow>
          if fa = Some 1 then (None, db)
          else (case update_row hosted now db k (update_values item existing) of
                  Inl e \<Rightarrow> (None, db)
                | Inr (changed, db') \<Rightarrow>
                    if hosted then
                      (case changed of
                         [] \<Rightarrow> (None, db')
                       | r # rs \<Rightarrow> (Some (normalizeRow (driver_row True r)), db'))
                    else (getById False (if fa = Some 2 then Some 0 else None) db' k, db')))"

subsection \<open>\<open>remove\<close>\<close>

definition remove :: "bool \<Rightarrow> fault \<Rightarrow> database \<Rightarrow> jsnum \<Rightarrow> bool \<times> database" where
  "remove hosted fa db k =
     (if fa = Some 0 then (False, db)
      else case delete_row hosted db k of
             Inl e \<Rightarrow> (False, db)
           | Inr (n, db') \<Rightarrow> (0 < n, db'))"

subsection \<open>\<open>updateRanks\<close>\<close>

text \<open>
  One \<open>UPDATE\<close> per pair, in order, each reading the clock; \<open>i\<close> counts the statements
  issued so far. A failure leaves the earlier pairs applied and returns \<open>false\<close>.
\<close>

fun updateRanks_from :: "bool \<Rightarrow> fault \<Rightarrow> (nat \<Rightarrow> timestamp) \<Rightarrow> nat \<Rightarrow> database \<Rightarrow> (rat \<times> rat) list \<Rightarrow> bool \<times> database" where
  "updateRanks_from hosted fa clock i db [] = (True, db)"
| "updateRanks_from hosted fa clock i db ((k, rk) # rest) =
     (if fa = Some i then (False, db)
      else case update_rank hosted (clock i) db k rk of
             Inl e \<Rightarrow> (False, db)
           | Inr db' \<Rightarrow> updateRanks_from hosted fa clock (Suc i) db' rest)"

definition updateRanks :: "bool \<Rightarrow> fault \<Rightarrow> (nat \<Rightarrow> timestamp) \<Rightarrow> database \<Rightarrow> (rat \<times> rat) list \<Rightarrow> bool \<times> database" where
  "updateRanks hosted fa clock db ranks = updateRanks_from hosted fa clock 0 db ranks"


section \<open>The HTTP resource layer (the two route modules)\<close>

datatype payload =
    Item "TravelDestination option"
  | Items "TravelDestination list"
  | Error string
  | Success

datatype response = Response nat payload

fun status :: "response \<Rightarrow> nat" where
  "status (Response code body) = code"

text \<open>
  A handler takes the parsed JSON body, \<open>None\<close> when \<open>request.json()\<close> rejects or
  yields \<open>null\<close>, so that reading a property of the body throws (the handler's own
  \<open>catch\<close> then answers 500), and returns the response with the store after the
  request. A response without an explicit status is 200. The adapter functions that the
  item handlers call catch every error themselves, so with a body at hand the
  \<open>catch\<close> of \<open>GET\<close>, \<open>PUT\<close> and \<open>DELETE\<close> is not reached.
\<close>

subsection \<open>Item resource\<close>

definition GET_item :: "bool \<Rightarrow> fault \<Rightarrow> database \<Rightarrow> string \<Rightarrow> response \<times> database" where
  "GET_item hosted fa db seg =
     (case getById hosted fa db (parseInt seg None) of
        None \<Rightarrow> (Response 404 (Error ''Destination not found''), db)
      | Some item \<Rightarrow> (Response 200 (Item (Some item)), db))"

definition PUT :: "bool \<Rightarrow> fault \<Rightarrow> timestamp \<Rightarrow> database \<Rightarrow> string \<Rightarrow> PartialDestination option \<Rightarrow> response \<times> database" where
  "PUT hosted fa now db seg json =
     (case json of
        None \<Rightarrow> (Response 500 (Error ''Failed to update travel destination''), db)
      | Some body \<Rightarrow>
          if falsy_str (p_destination body) \<or> falsy_str (p_country body)
          then (Response 400 (Error ''Destination and country are required''), db)
          else (case update hosted fa now db (parseInt seg None)
                       \<lparr>p_rank = p_rank body, p_destination = p_destination body,
                        p_country = p_country body, p_latitude = p_latitude body,
                        p_longitude = p_longitude body, p_reason = p_reason body,
                        p_budget = p_budget body, p_timeline = p_timeline body,
                        p_image_url = p_image_url body\<rparr> of
                  (None, db') \<Rightarrow> (Response 404 (Error ''Destination not found''), db')
                | (Some updatedItem, db') \<Rightarrow> (Response 200 (Item (Some updatedItem)), db')))"

definition DELETE :: "bool \<Rightarrow> fault \<Rightarrow> database \<Rightarrow> string \<Rightarrow> response \<times> database" where
  "DELETE hosted fa db seg =
     (case remove hosted fa db (parseInt seg None) of
        (False, db') \<Rightarrow> (Response 404 (Error ''Destination not found''), db')
      | (True, db') \<Rightarrow> (Response 200 Success, db'))"

subsection \<open>Collection resource\<close>

definition GET_collection :: "bool \<Rightarrow> fault \<Rightarrow> heap_order \<Rightarrow> database \<Rightarrow> response \<times> database" where
  "GET_collection hosted fa pos db = (Response 200 (Items (getAll hosted fa pos db)), db)"

text \<open>The object \<open>POST\<close> passes to \<open>create\<close>.\<close>

definition post_item :: "PartialDestination \<Rightarrow> NewTravelDestination" where
  "post_item body =
     \<lparr>new_rank = or_num (p_rank body) 1,
      new_destination = or_str (p_destination body) [],
      new_country = or_str (p_country body) [],
      new_latitude = or_num (p_latitude body) 0,
      new_longitude = or_num (p_longitude body) 0,
      new_reason = or_str (p_reason body) [],
      new_budget = or_str (p_budget body) [],
      new_timeline = or_str (p_timeline body) [],
      new_image_url = Some (or_str (p_image_url body) [])\<rparr>"

definition POST :: "bool \<Rightarrow> fault \<Rightarrow> timestamp \<Rightarrow> database \<Rightarrow> PartialDestination option \<Rightarrow> response \<times> database" where
  "POST hosted fa now db json =
     (case json of
        None \<Rightarrow> (Response 500 (Error ''Failed to create travel destination''), db)
      | Some body \<Rightarrow>
          if falsy_str (p_destination body) \<or> falsy_str (p_country body)
          then (Response 400 (Error ''Destination and country are required''), db)
          else (case create hosted fa now db (post_item body) of
                  (Inl e, db') \<Rightarrow> (Response 500 (Error ''Failed to create travel destination''), db')
                | (Inr newItem, db') \<Rightarrow> (Response 201 (Item newItem), db')))"

text \<open>
  The \<open>ranks\<close> property of a \<open>PATCH\<close> body: falsy (absent, \<open>null\<close>, ...), some other
  value that is not an array, or an array of \<open>{id, rank}\<close> pairs.
\<close>

datatype ranks_property = RanksFalsy | RanksNotArray | RanksArray "(rat \<times> rat) list"

definition PATCH :: "bool \<Rightarrow> fault \<Rightarrow> (nat \<Rightarrow> timestamp) \<Rightarrow> database \<Rightarrow> ranks_property option \<Rightarrow> response \<times> database" where
  "PATCH hosted fa clock db json =
     (case json of
        None \<Rightarrow> (Response 500 (Error ''Failed to update ranks''), db)
      | Some RanksFalsy \<Rightarrow> (Response 400 (Error ''Ranks array is required''), db)
      | Some RanksNotArray \<Rightarrow> (Response 400 (Error ''Ranks array is required''), db)
      | Some (RanksArray ranks) \<Rightarrow>
          (case updateRanks hosted fa clock db ranks of
             (True, db') \<Rightarrow> (Response 200 Success, db')
           | (False, db') \<Rightarrow> (Response 500 (Error ''Failed to update ranks''), db')))"

section \<open>Sequences of operations\<close>

text \<open>
  Calls of the adapter and requests to the resource layer, each with the backend failure
  and the clock readings it meets; \<open>run\<close> applies them in order.
\<close>

datatype call =
    Create fault timestamp NewTravelDestination
  | Update fault timestamp jsnum PartialDestination
  | UpdateRanks fault "nat \<Rightarrow> timestamp" "(rat \<times> rat) list"
  | Remove fault jsnum
  | Post fault timestamp "PartialDestination option"
  | Put fault timestamp string "PartialDestination option"
  | Patch fault "nat \<Rightarrow> timestamp" "ranks_property option"
  | Delete fault string

fun step :: "bool \<Rightarrow> database \<Rightarrow> call \<Rightarrow> database" where
  "step hosted db (Create fa now item) = snd (create hosted fa now db item)"
| "step hosted db (Update fa now k item) = snd (update hosted fa now db k item)"
| "step hosted db (UpdateRanks fa clock ranks) = snd (updateRanks hosted fa clock db ranks)"
| "step hosted db (Remove fa k) = snd (remove hosted fa db k)"
| "step hosted db (Post fa now json) = snd (POST hosted fa now db json)"
| "step hosted db (Put fa now seg json) = snd (PUT hosted fa now db seg json)"
| "step hosted db (Patch fa clock json) = snd (PATCH hosted fa clock db json)"
| "step hosted db (Delete fa seg) = snd (DELETE hosted fa db seg)"

definition run :: "bool \<Rightarrow> call list \<Rightarrow> database \<Rightarrow> database" where
  "run hosted calls db = foldl (step hosted) db calls"

section \<open>Notions used by the properties\<close>

text \<open>What the adapter returns for a stored row: the driver's row, normalised on the hosted backend.\<close>

definition returned_row :: "bool \<Rightarrow> stored_row \<Rightarrow> TravelDestination" where
  "returned_row hosted r = (if hosted then normalizeRow (driver_row True r) else driver_row False r)"

text \<open>A value a \<open>DECIMAL(p, sc)\<close> column can hold: already at the scale, and in range.\<close>

definition fits_decimal :: "nat \<Rightarrow> nat \<Rightarrow> rat \<Rightarrow> bool" where
  "fits_decimal p sc q = (pg_round sc q = q \<and> \<bar>q\<bar> < 10 ^ (p - sc))"

definition row_fits :: "bool \<Rightarrow> stored_row \<Rightarrow> bool" where
  "row_fits hosted r =
     (if hosted
      then is_int4 (rat_of_int (col_id r)) \<and> is_int4 (col_rank r) \<and>
           fits_decimal 10 8 (col_latitude r) \<and> fits_decimal 11 8 (col_longitude r)
      else True)"

text \<open>
  A well-formed store: keys are unique and below the next key, and on the hosted backend
  every row holds values of its column types.
\<close>

definition wf_db :: "bool \<Rightarrow> database \<Rightarrow> bool" where
  "wf_db hosted db =
     (distinct (map col_id (table db)) \<and>
      list_all (\<lambda>r. col_id r < next_id db \<and> row_fits hosted r) (table db))"

subsection \<open>Concrete inputs\<close>

text \<open>The payload of the round-trip scenario, its row and record after a first insert at clock 5.\<close>

definition tokyo_item :: NewTravelDestination where
  "tokyo_item = \<lparr>new_rank = 1, new_destination = ''Tokyo'', new_country = ''Japan'',
     new_latitude = 356762 / 10000, new_longitude = 1396503 / 10000, new_reason = ''food'',
     new_budget = [], new_timeline = ''someday'', new_image_url = Some []\<rparr>"

definition tokyo_row :: stored_row where
  "tokyo_row = \<lparr>col_id = 1, col_rank = 1, col_destination = ''Tokyo'', col_country = ''Japan'',
     col_latitude = 356762 / 10000, col_longitude = 1396503 / 10000, col_reason = ''food'',
     col_budget = [], col_timeline = ''someday'', col_image_url = None,
     col_created_at = Some 5, col_updated_at = Some 5\<rparr>"

definition tokyo_db :: database where
  "tokyo_db = \<lparr>table = [tokyo_row], next_id = 2\<rparr>"

definition tokyo_record :: TravelDestination where
  "tokyo_record = \<lparr>id' = JNum (Num 1), rank = JNum (Num 1), destination = ''Tokyo'',
     country = ''Japan'', latitude = JNum (Num (356762 / 10000)),
     longitude = JNum (Num (1396503 / 10000)), reason = ''food'', budget = [],
     timeline = ''someday'', image_url = None, created_at = Some 5, updated_at = Some 5\<rparr>"

text \<open>The same payload with a latitude of nine decimals.\<close>

definition fine_item :: NewTravelDestination where
  "fine_item = tokyo_item\<lparr>new_latitude := 123456789 / 1000000000\<rparr>"

text \<open>The empty partial \<open>{}\<close>, and a request body that names Tokyo and nothing else.\<close>

definition empty_partial :: PartialDestination where
  "empty_partial = \<lparr>p_rank = Absent, p_destination = Absent, p_country = Absent,
     p_latitude = Absent, p_longitude = Absent, p_reason = Absent, p_budget = Absent,
     p_timeline = Absent, p_image_url = Absent\<rparr>"

definition tokyo_body :: PartialDestination where
  "tokyo_body = empty_partial\<lparr>p_destination := Val ''Tokyo'', p_country := Val ''Japan''\<rparr>"

definition fine_row :: stored_row where
  "fine_row = tokyo_row\<lparr>col_latitude := 12345679 / 100000000\<rparr>"

definition fine_db :: database where
  "fine_db = \<lparr>table = [fine_row], next_id = 2\<rparr>"

definition fine_record :: TravelDestination where
  "fine_record = tokyo_record\<lparr>latitude := JNum (Num (12345679 / 100000000))\<rparr>"

text \<open>What a \<open>POST\<close> of that body to the empty store at clock 5 leaves and returns.\<close>

definition post_row :: stored_row where
  "post_row = \<lparr>col_id = 1, col_rank = 1, col_destination = ''Tokyo'', col_country = ''Japan'',
     col_latitude = 0, col_longitude = 0, col_reason = [], col_budget = [], col_timeline = [],
     col_image_url = None, col_created_at = Some 5, col_updated_at = Some 5\<rparr>"

definition post_db :: database where
  "post_db = \<lparr>table = [post_row], next_id = 2\<rparr>"

definition post_record :: TravelDestination where
  "post_record = \<lparr>id' = JNum (Num 1), rank = JNum (Num 1), destination = ''Tokyo'',
     country = ''Japan'', latitude = JNum (Num 0), longitude = JNum (Num 0), reason = [],
     budget = [], timeline = [], image_url = None, created_at = Some 5, updated_at = Some 5\<rparr>"

text \<open>A valid body that sets the rank to \<open>null\<close>.\<close>

definition null_rank_body :: PartialDestination where
  "null_rank_body = tokyo_body\<lparr>p_rank := Null\<rparr>"

text \<open>A clock that reads 9 at every statement.\<close>

definition const_clock :: "nat \<Rightarrow> timestamp" where
  "const_clock i = 9"

text \<open>A body with a negative rank.\<close>

definition negative_rank_body :: PartialDestination where
  "negative_rank_body = tokyo_body\<lparr>p_rank := Val (- 1)\<rparr>"

subsection \<open>Order of a returned list\<close>

fun rank_le :: "jsval \<Rightarrow> jsval \<Rightarrow> bool" where
  "rank_le (JNum (Num p)) (JNum (Num q)) = (p \<le> q)"
| "rank_le _ _ = False"

definition ascending_by_rank :: "TravelDestination list \<Rightarrow> bool" where
  "ascending_by_rank xs = sorted_wrt (\<lambda>a b. rank_le (rank a) (rank b)) xs"

subsection \<open>Ranks a caller supplies\<close>

fun rank_given_ok :: "rat field \<Rightarrow> bool" where
  "rank_given_ok (Val q) = (1 \<le> q)"
| "rank_given_ok _ = True"

definition pairs_ok :: "(rat \<times> rat) list \<Rightarrow> bool" where
  "pairs_ok ranks = list_all (\<lambda>p. 1 \<le> snd p) ranks"

text \<open>
  Every rank the call supplies is at least 1. A \<open>POST\<close> may also leave the rank out or
  send 0 or \<open>null\<close>, which the handler replaces by 1.
\<close>

fun ranks_ok :: "call \<Rightarrow> bool" where
  "ranks_ok (Create fa now item) = (1 \<le> new_rank item)"
| "ranks_ok (Update fa now k item) = rank_given_ok (p_rank item)"
| "ranks_ok (UpdateRanks fa clock ranks) = pairs_ok ranks"
| "ranks_ok (Remove fa k) = True"
| "ranks_ok (Post fa now None) = True"
| "ranks_ok (Post fa now (Some body)) = (1 \<le> or_num (p_rank body) 1)"
| "ranks_ok (Put fa now seg None) = True"
| "ranks_ok (Put fa now seg (Some body)) = rank_given_ok (p_rank body)"
| "ranks_ok (Patch fa clock (Some (RanksArray ranks))) = pairs_ok ranks"
| "ranks_ok (Patch fa clock _) = True"
| "ranks_ok (Delete fa seg) = True"

definition ranks_positive :: "database \<Rightarrow> bool" where
  "ranks_positive db = list_all (\<lambda>r. 1 \<le> col_rank r) (table db)"

subsection \<open>The effect of a batch of rank updates on one row\<close>

text \<open>
  The rank that a row with key \<open>i\<close> and rank \<open>q\<close> has after the pairs have been
  applied in order without a backend failure; on the hosted backend the batch stops at the
  first pair that is not a pair of 32-bit integers.
\<close>

definition pair_rejected :: "bool \<Rightarrow> rat \<Rightarrow> rat \<Rightarrow> bool" where
  "pair_rejected hosted k rk = (hosted \<and> \<not> (is_int4 k \<and> is_int4 rk))"

fun rank_after :: "bool \<Rightarrow> (rat \<times> rat) list \<Rightarrow> int \<Rightarrow> rat \<Rightarrow> rat" where
  "rank_after hosted [] i q = q"
| "rank_after hosted ((k, rk) # ps) i q =
     (if pair_rejected hosted k rk then q
      else rank_after hosted ps i (if k = rat_of_int i then rk else q))"

definition key_rank :: "stored_row \<Rightarrow> int \<times> rat" where
  "key_rank r = (col_id r, col_rank r)"

subsection \<open>Refreshing \<open>updated_at\<close>\<close>

text \<open>The row with key \<open>i\<close> gets the clock reading as \<open>updated_at\<close>; other rows stay.\<close>

definition touch :: "timestamp \<Rightarrow> int \<Rightarrow> stored_row \<Rightarrow> stored_row" where
  "touch now i r = (if col_id r = i then r\<lparr>col_updated_at := Some now\<rparr> else r)"

subsection \<open>The order of a listing, on keys and ranks\<close>

text \<open>The order in which a query lists rows, given as (key, rank) pairs.\<close>

definition order_keys :: "heap_order \<Rightarrow> (int \<times> rat) list \<Rightarrow> (int \<times> rat) list" where
  "order_keys pos ks = sort_key snd (sort_key (\<lambda>p. pos (fst p)) ks)"

definition as_listed :: "int \<times> rat \<Rightarrow> jsval \<times> jsval" where
  "as_listed p = (JNum (Num (rat_of_int (fst p))), JNum (Num (snd p)))"

subsection \<open>Two records of equal rank\<close>

text \<open>
  The store after two \<open>POST\<close>s of the Tokyo body at clocks 5 and 6: both records have the
  default rank 1. A batch that gives both rank 1 again, and one that gives them ranks 2
  and 1. Two orders in which the backend may read the rows: record 1 first, record 2 first.
\<close>

definition second_row :: stored_row where
  "second_row = post_row\<lparr>col_id := 2, col_created_at := Some 6, col_updated_at := Some 6\<rparr>"

definition two_db :: database where
  "two_db = \<lparr>table = [post_row, second_row], next_id = 3\<rparr>"

definition tie_batch :: "(rat \<times> rat) list" where
  "tie_batch = [(1, 1), (2, 1)]"

definition swap_batch :: "(rat \<times> rat) list" where
  "swap_batch = [(1, 2), (2, 1)]"

definition first_read :: heap_order where
  "first_read i = (if i = 1 then 0 else 1)"

definition second_read :: heap_order where
  "second_read i = (if i = 1 then 1 else 0)"


subsection \<open>A batch applied, and the list read after it\<close>

text \<open>
  The store after \<open>updateRanks\<close> with no backend failure, and the keys and ranks of the
  records \<open>getAll\<close> returns, in the order it returns them.
\<close>

definition reordered :: "bool \<Rightarrow> (nat \<Rightarrow> timestamp) \<Rightarrow> database \<Rightarrow> (rat \<times> rat) list \<Rightarrow> database" where
  "reordered hosted clock db ranks = snd (updateRanks hosted None clock db ranks)"

definition listing :: "bool \<Rightarrow> heap_order \<Rightarrow> database \<Rightarrow> (jsval \<times> jsval) list" where
  "listing hosted pos db = map (\<lambda>t. (id' t, rank t)) (getAll hosted None pos db)"

subsection \<open>What a create request asks for\<close>








section \<open>Basic facts about the store\<close>

lemma and_then_Inl [simp]: "and_then (Inl e) f = Inl e"
  by (simp add: and_then_def)

lemma and_then_Inr [simp]: "and_then (Inr a) f = f a"
  by (simp add: and_then_def)

lemma and_then_eq_Inr: "and_then x f = Inr y \<longleftrightarrow> (\<exists>a. x = Inr a \<and> f a = Inr y)"
  by (cases x) auto

lemma store_integer_Inr: "store_integer hosted q = Inr q' \<Longrightarrow> q' = q \<and> (hosted \<longrightarrow> is_int4 q)"
  by (auto simp: store_integer_def split: if_splits)

lemma store_decimal_Inr:
  "store_decimal hosted p sc q = Inr q' \<Longrightarrow>
     q' = (if hosted then pg_round sc q else q) \<and> (hosted \<longrightarrow> \<bar>q'\<bar> < 10 ^ (p - sc))"
  by (auto simp: store_decimal_def Let_def split: if_splits)

lemma bind_number_Inr: "bind_number v = Inr q \<longleftrightarrow> v = JNum (Num q)"
  by (cases v rule: bind_number.cases) auto

lemma bind_text_Inr: "bind_text v = Inr s \<longleftrightarrow> v = Some s"
  by (cases v) auto

lemma coerce_values_Inr:
  assumes "coerce_values hosted v r = Inr r'"
  shows "\<exists>rk la lo de co re bu ti.
           v_rank v = JNum (Num rk) \<and> v_latitude v = JNum (Num la) \<and> v_longitude v = JNum (Num lo) \<and>
           v_destination v = Some de \<and> v_country v = Some co \<and> v_reason v = Some re \<and>
           v_budget v = Some bu \<and> v_timeline v = Some ti \<and>
           (hosted \<longrightarrow> is_int4 rk \<and> \<bar>pg_round 8 la\<bar> < 100 \<and> \<bar>pg_round 8 lo\<bar> < 1000) \<and>
           r' = r\<lparr>col_rank := rk, col_destination := de, col_country := co,
                  col_latitude := (if hosted then pg_round 8 la else la),
                  col_longitude := (if hosted then pg_round 8 lo else lo),
                  col_reason := re, col_budget := bu, col_timeline := ti,
                  col_image_url := v_image_url v\<rparr>"
  using assms unfolding coerce_values_def and_then_eq_Inr bind_number_Inr bind_text_Inr
  by (cases hosted) (auto dest!: store_integer_Inr store_decimal_Inr)

section \<open>Decimal text read back by \<open>parseFloat\<close>\<close>

lemma digit_of_digit_char: "d < 10 \<Longrightarrow> digit_of (digit_char d) = Some d"
  by (simp add: digit_of_def digit_char_def Let_def)

lemma is_digit_digit_char: "d < 10 \<Longrightarrow> is_digit_in 10 (digit_char d)"
  by (simp add: is_digit_in_def digit_of_digit_char)

lemma decimal_digit_code: "is_digit_in 10 c \<Longrightarrow> 48 \<le> (of_char c :: nat) \<and> (of_char c :: nat) \<le> 57"
  by (auto simp: is_digit_in_def digit_of_def Let_def split: if_splits)

lemma decimal_digit_not_ws: "is_digit_in 10 c \<Longrightarrow> \<not> is_ws c"
  by (auto simp: is_ws_def dest!: decimal_digit_code)

lemma decimal_digit_not_sign:
  "is_digit_in 10 c \<Longrightarrow> c \<noteq> CHR ''-'' \<and> c \<noteq> CHR ''+'' \<and> c \<noteq> CHR ''.''"
  by (auto dest!: decimal_digit_code)

lemma digits_val_snoc: "digits_val R (ds @ [c]) = digits_val R ds * R + the (digit_of c)"
  by (simp add: digits_val_def)

lemma nat_digits_all: "c \<in> set (nat_digits n) \<Longrightarrow> is_digit_in 10 c"
proof (induction n arbitrary: c rule: nat_digits.induct)
  case (1 n)
  show ?case
  proof (cases "n < 10")
    case True
    with "1.prems" show ?thesis
      by (simp add: nat_digits.simps [of n] is_digit_digit_char)
  next
    case False
    with "1.prems" "1.IH" show ?thesis
      by (auto simp: nat_digits.simps [of n] is_digit_digit_char)
  qed
qed

lemma nat_digits_nonempty: "nat_digits n \<noteq> []"
  by (simp add: nat_digits.simps [of n])

lemma digits_val_nat_digits: "digits_val 10 (nat_digits n) = n"
proof (induction n rule: nat_digits.induct)
  case (1 n)
  show ?case
  proof (cases "n < 10")
    case True
    then show ?thesis
      by (simp add: nat_digits.simps [of n] digits_val_def digit_of_digit_char)
  next
    case False
    with "1.IH" show ?thesis
      by (simp add: nat_digits.simps [of n] digits_val_snoc digit_of_digit_char)
  qed
qed

lemma frac_digits_all: "c \<in> set (frac_digits w m) \<Longrightarrow> is_digit_in 10 c"
  by (induction w arbitrary: m) (auto simp: is_digit_digit_char)

lemma length_frac_digits: "length (frac_digits w m) = w"
  by (induction w arbitrary: m) auto

lemma digits_val_frac_digits: "digits_val 10 (frac_digits w m) = m mod 10 ^ w"
proof (induction w arbitrary: m)
  case 0
  show ?case by (simp add: digits_val_def)
next
  case (Suc w)
  have "m mod (10 * 10 ^ w) = (m div 10) mod 10 ^ w * 10 + m mod 10"
    by (simp add: mod_mult2_eq mult.commute)
  with Suc show ?case
    by (simp add: digits_val_snoc digit_of_digit_char)
qed


lemma point_not_digit: "\<not> is_digit_in 10 CHR ''.''"
  by (simp add: is_digit_in_def digit_of_def)

lemma minus_not_ws: "\<not> is_ws CHR ''-''"
  by (simp add: is_ws_def)

lemma parseFloat_plain:
  assumes ds: "\<forall>c\<in>set ds. is_digit_in 10 c" "ds \<noteq> []"
    and fs: "\<forall>c\<in>set fs. is_digit_in 10 c"
  shows "parseFloat ((if neg then ''-'' else []) @ ds @ CHR ''.'' # fs) =
           Num ((if neg then - 1 else 1) *
                (of_nat (digits_val 10 ds) + of_nat (digits_val 10 fs) / 10 ^ length fs))"
proof -
  let ?t = "ds @ CHR ''.'' # fs"
  from ds obtain d ds' where d: "ds = d # ds'" "is_digit_in 10 d"
    by (cases ds) auto
  have sign: "take_sign (dropWhile is_ws ((if neg then ''-'' else []) @ ?t)) = (neg, ?t)"
    using d decimal_digit_not_ws [of d] decimal_digit_not_sign [of d]
    by (simp add: minus_not_ws)
  have ip: "takeWhile (is_digit_in 10) ?t = ds"
    using ds(1) by (simp add: point_not_digit)
  have r1: "dropWhile (is_digit_in 10) ?t = CHR ''.'' # fs"
    using ds(1) by (simp add: point_not_digit)
  have fp: "takeWhile (is_digit_in 10) fs = fs"
    using fs by simp
  have r2: "dropWhile (is_digit_in 10) fs = []"
    using fs by simp
  show ?thesis
    unfolding parseFloat_def sign
    by (simp add: ip r1 fp r2 exponent_of_def ds(2))
qed

lemma parseFloat_decimal_text:
  assumes sc: "0 < sc" and whole: "rat_of_int \<lfloor>\<bar>q\<bar> * 10 ^ sc\<rfloor> = \<bar>q\<bar> * 10 ^ sc"
  shows "parseFloat (decimal_text sc q) = Num q"
proof -
  define n where "n = nat \<lfloor>\<bar>q\<bar> * 10 ^ sc\<rfloor>"
  have n: "rat_of_nat n = \<bar>q\<bar> * 10 ^ sc"
  proof -
    have "0 \<le> \<lfloor>\<bar>q\<bar> * 10 ^ sc\<rfloor>" by simp
    then have "rat_of_nat n = rat_of_int \<lfloor>\<bar>q\<bar> * 10 ^ sc\<rfloor>"
      unfolding n_def by simp
    with whole show ?thesis by simp
  qed
  have split: "rat_of_nat (n div 10 ^ sc) + rat_of_nat (n mod 10 ^ sc) / 10 ^ sc = rat_of_nat n / 10 ^ sc"
  proof -
    have "rat_of_nat n = rat_of_nat (n div 10 ^ sc * 10 ^ sc + n mod 10 ^ sc)"
      by (simp only: div_mult_mod_eq)
    also have "\<dots> = rat_of_nat (n div 10 ^ sc) * 10 ^ sc + rat_of_nat (n mod 10 ^ sc)"
      by (simp only: of_nat_add of_nat_mult of_nat_power of_nat_numeral)
    finally have e: "rat_of_nat n = rat_of_nat (n div 10 ^ sc) * 10 ^ sc + rat_of_nat (n mod 10 ^ sc)" .
    have "rat_of_nat n / 10 ^ sc =
        (rat_of_nat (n div 10 ^ sc) * 10 ^ sc + rat_of_nat (n mod 10 ^ sc)) / 10 ^ sc"
      by (simp only: e [symmetric])
    also have "\<dots> = rat_of_nat (n div 10 ^ sc) + rat_of_nat (n mod 10 ^ sc) / 10 ^ sc"
      by (simp add: add_divide_distrib)
    finally show ?thesis by simp
  qed
  have shape: "decimal_text sc q =
      (if q < 0 then ''-'' else []) @ nat_digits (n div 10 ^ sc) @ CHR ''.'' # frac_digits sc (n mod 10 ^ sc)"
    using sc by (simp add: decimal_text_def n_def Let_def)
  have "parseFloat (decimal_text sc q) =
      Num ((if q < 0 then - 1 else 1) * (rat_of_nat n / 10 ^ sc))"
    unfolding shape
    by (subst parseFloat_plain)
       (simp_all add: nat_digits_all frac_digits_all nat_digits_nonempty
          digits_val_nat_digits digits_val_frac_digits length_frac_digits split)
  also have "(if q < 0 then - 1 else 1) * (rat_of_nat n / 10 ^ sc) = q"
    by (simp add: n)
  finally show ?thesis .
qed

lemma pg_round_whole: "rat_of_int \<lfloor>\<bar>pg_round sc x\<bar> * 10 ^ sc\<rfloor> = \<bar>pg_round sc x\<bar> * 10 ^ sc"
proof -
  have nonneg: "0 \<le> \<lfloor>\<bar>x\<bar> * 10 ^ sc + 1 / 2\<rfloor>"
    by simp
  have "\<bar>pg_round sc x\<bar> * 10 ^ sc = rat_of_int \<lfloor>\<bar>x\<bar> * 10 ^ sc + 1 / 2\<rfloor>"
    using nonneg by (simp add: pg_round_def abs_mult)
  then show ?thesis by simp
qed

lemma pg_round_idem: "pg_round sc (pg_round sc x) = pg_round sc x"
proof -
  let ?k = "\<lfloor>\<bar>x\<bar> * 10 ^ sc + 1 / 2\<rfloor>"
  have nonneg: "0 \<le> ?k" by simp
  have abs: "\<bar>pg_round sc x\<bar> * 10 ^ sc = rat_of_int ?k"
    using nonneg by (simp add: pg_round_def abs_mult)
  have fl: "\<lfloor>rat_of_int ?k + 1 / 2\<rfloor> = ?k"
    by linarith
  show ?thesis
  proof (cases "?k = 0")
    case True
    have half: "\<lfloor>1 / 2 :: rat\<rfloor> = 0"
      by (simp add: floor_eq_iff)
    from True show ?thesis by (simp add: pg_round_def half)
  next
    case False
    with nonneg have pos: "0 < ?k" by linarith
    define c where "c = rat_of_int ?k / 10 ^ sc"
    have cpos: "0 < c"
      unfolding c_def using pos by simp
    have val: "pg_round sc x = (if x < 0 then - c else c)"
      by (simp add: pg_round_def c_def)
    have sgn: "pg_round sc x < 0 \<longleftrightarrow> x < 0"
      using cpos by (simp add: val)
    have "pg_round sc (pg_round sc x) =
        (if pg_round sc x < 0 then - 1 else 1) * rat_of_int \<lfloor>\<bar>pg_round sc x\<bar> * 10 ^ sc + 1 / 2\<rfloor> / 10 ^ sc"
      by (simp only: pg_round_def [of sc "pg_round sc x"])
    also have "\<dots> = (if x < 0 then - 1 else 1) * rat_of_int ?k / 10 ^ sc"
      by (simp only: abs fl sgn)
    also have "\<dots> = pg_round sc x"
      by (simp only: pg_round_def)
    finally show ?thesis .
  qed
qed

section \<open>Rows returned and rows inserted\<close>

lemma returned_row_fits:
  assumes "row_fits hosted r"
  shows "returned_row hosted r = driver_row False r"
proof (cases hosted)
  case False
  then show ?thesis by (simp add: returned_row_def)
next
  case True
  with assms have la: "pg_round 8 (col_latitude r) = col_latitude r"
    and lo: "pg_round 8 (col_longitude r) = col_longitude r"
    by (simp_all add: row_fits_def fits_decimal_def)
  have "parseFloat (decimal_text 8 (col_latitude r)) = Num (col_latitude r)"
    using pg_round_whole [of 8 "col_latitude r"] by (intro parseFloat_decimal_text) (simp_all only: la zero_less_numeral)
  moreover have "parseFloat (decimal_text 8 (col_longitude r)) = Num (col_longitude r)"
    using pg_round_whole [of 8 "col_longitude r"] by (intro parseFloat_decimal_text) (simp_all only: lo zero_less_numeral)
  ultimately show ?thesis
    using True by (simp add: returned_row_def normalizeRow_def driver_row_def)
qed

lemma getAll_returned:
  "getAll hosted fa pos db =
     (if fa = Some 0 \<or> (hosted \<and> fa = Some 1) then []
      else map (returned_row hosted) (select_all pos db))"
  by (simp add: getAll_def returned_row_def)

lemma getById_returned:
  "getById hosted fa db k =
     (if fa = Some 0 then None
      else case select_by_id hosted db k of
             Inl e \<Rightarrow> None
           | Inr rs \<Rightarrow> (case rs of [] \<Rightarrow> None | r # _ \<Rightarrow> Some (returned_row hosted r)))"
  by (simp add: getById_def returned_row_def split: sum.splits list.splits)

lemma coerce_values_fields:
  assumes "coerce_values hosted v r = Inr r'"
  shows "col_id r' = col_id r"
    and "col_created_at r' = col_created_at r"
    and "col_updated_at r' = col_updated_at r"
    and "col_image_url r' = v_image_url v"
    and "v_rank v = JNum (Num (col_rank r'))"
    and "v_destination v = Some (col_destination r')"
    and "v_country v = Some (col_country r')"
    and "v_reason v = Some (col_reason r')"
    and "v_budget v = Some (col_budget r')"
    and "v_timeline v = Some (col_timeline r')"
    and "\<exists>la. v_latitude v = JNum (Num la) \<and> col_latitude r' = (if hosted then pg_round 8 la else la)"
    and "\<exists>lo. v_longitude v = JNum (Num lo) \<and> col_longitude r' = (if hosted then pg_round 8 lo else lo)"
    and "hosted \<Longrightarrow> is_int4 (col_rank r') \<and> fits_decimal 10 8 (col_latitude r') \<and>
           fits_decimal 11 8 (col_longitude r')"
proof -
  from coerce_values_Inr [OF assms] obtain rk la lo de co re bu ti where
    v: "v_rank v = JNum (Num rk)" "v_latitude v = JNum (Num la)" "v_longitude v = JNum (Num lo)"
       "v_destination v = Some de" "v_country v = Some co" "v_reason v = Some re"
       "v_budget v = Some bu" "v_timeline v = Some ti"
    and h: "hosted \<longrightarrow> is_int4 rk \<and> \<bar>pg_round 8 la\<bar> < 100 \<and> \<bar>pg_round 8 lo\<bar> < 1000"
    and r': "r' = r\<lparr>col_rank := rk, col_destination := de, col_country := co,
                  col_latitude := (if hosted then pg_round 8 la else la),
                  col_longitude := (if hosted then pg_round 8 lo else lo),
                  col_reason := re, col_budget := bu, col_timeline := ti,
                  col_image_url := v_image_url v\<rparr>"
    by blast
  show "col_id r' = col_id r" "col_created_at r' = col_created_at r"
    "col_updated_at r' = col_updated_at r" "col_image_url r' = v_image_url v"
    by (simp_all add: r')
  show "v_rank v = JNum (Num (col_rank r'))" "v_destination v = Some (col_destination r')"
    "v_country v = Some (col_country r')" "v_reason v = Some (col_reason r')"
    "v_budget v = Some (col_budget r')" "v_timeline v = Some (col_timeline r')"
    by (simp_all add: r' v)
  show "\<exists>la. v_latitude v = JNum (Num la) \<and> col_latitude r' = (if hosted then pg_round 8 la else la)"
    by (rule exI [of _ la]) (simp add: r' v)
  show "\<exists>lo. v_longitude v = JNum (Num lo) \<and> col_longitude r' = (if hosted then pg_round 8 lo else lo)"
    by (rule exI [of _ lo]) (simp add: r' v)
  show "is_int4 (col_rank r') \<and> fits_decimal 10 8 (col_latitude r') \<and>
           fits_decimal 11 8 (col_longitude r')" if hosted
    using that h by (simp add: r' fits_decimal_def pg_round_idem)
qed

lemma insert_row_Inr:
  assumes "insert_row hosted now db v = Inr (r, db')"
  shows "db' = \<lparr>table = table db @ [r], next_id = next_id db + 1\<rparr>"
    and "col_id r = next_id db"
    and "col_created_at r = Some now" and "col_updated_at r = Some now"
    and "row_fits hosted r"
    and "\<exists>blank. coerce_values hosted v blank = Inr r"
proof -
  let ?blank = "\<lparr>col_id = next_id db, col_rank = 0, col_destination = [], col_country = [],
           col_latitude = 0, col_longitude = 0, col_reason = [], col_budget = [],
           col_timeline = [], col_image_url = None,
           col_created_at = Some now, col_updated_at = Some now\<rparr>"
  from assms have int: "hosted \<longrightarrow> is_int4 (rat_of_int (next_id db))"
    and co: "coerce_values hosted v ?blank = Inr r"
    and db': "db' = \<lparr>table = table db @ [r], next_id = next_id db + 1\<rparr>"
    unfolding insert_row_def and_then_eq_Inr
    by (auto dest!: store_integer_Inr)
  have blank: "col_id ?blank = next_id db" "col_created_at ?blank = Some now"
      "col_updated_at ?blank = Some now"
    by simp_all
  note f = coerce_values_fields [OF co]
  show "db' = \<lparr>table = table db @ [r], next_id = next_id db + 1\<rparr>" by (rule db')
  show "col_id r = next_id db" "col_created_at r = Some now" "col_updated_at r = Some now"
    using f(1-3) blank by simp_all
  show "row_fits hosted r"
    using f(13) int \<open>col_id r = next_id db\<close> by (simp add: row_fits_def)
  show "\<exists>blank. coerce_values hosted v blank = Inr r"
    using co by blast
qed

section \<open>Well-formed stores and \<open>create\<close>\<close>

lemma has_id_of_int [simp]: "has_id (Some (rat_of_int i)) r \<longleftrightarrow> col_id r = i"
  by (auto simp: has_id_def)

lemma has_id_None [simp]: "\<not> has_id None r"
  by (simp add: has_id_def)

lemma id_param_of_int:
  "(hosted \<Longrightarrow> is_int4 (rat_of_int i)) \<Longrightarrow> id_param hosted (Num (rat_of_int i)) = Inr (Some (rat_of_int i))"
  by (auto simp: id_param_def)

lemma wf_db_table:
  assumes "wf_db hosted db" and "r \<in> set (table db)"
  shows "col_id r < next_id db" and "row_fits hosted r"
  using assms by (auto simp: wf_db_def list_all_iff)

lemma wf_db_all:
  "wf_db hosted db \<Longrightarrow> \<forall>r\<in>set (table db). col_id r < next_id db \<and> row_fits hosted r"
  by (simp add: wf_db_def list_all_iff)

lemma filter_fresh_id:
  assumes "wf_db hosted db"
  shows "filter (has_id (Some (rat_of_int (next_id db)))) (table db) = []"
  using wf_db_all [OF assms] by (fastforce simp: filter_empty_conv)

lemma wf_insert_row:
  assumes "wf_db hosted db" and "insert_row hosted now db v = Inr (r, db')"
  shows "wf_db hosted db'"
proof -
  note i = insert_row_Inr [OF assms(2)]
  have "col_id r \<notin> col_id ` set (table db)"
    using wf_db_all [OF assms(1)] i(2) by fastforce
  moreover have "\<forall>x\<in>set (table db). col_id x < next_id db + 1 \<and> row_fits hosted x"
    using wf_db_all [OF assms(1)] by fastforce
  ultimately show ?thesis
    using assms(1) i(2,5) by (simp add: wf_db_def i(1) list_all_iff)
qed

lemma select_inserted:
  assumes "wf_db hosted db" and "insert_row hosted now db v = Inr (r, db')"
  shows "select_by_id hosted db' (Num (rat_of_int (col_id r))) = Inr [r]"
proof -
  note i = insert_row_Inr [OF assms(2)]
  have "hosted \<Longrightarrow> is_int4 (rat_of_int (col_id r))"
    using i(5) by (simp add: row_fits_def)
  then have "id_param hosted (Num (rat_of_int (col_id r))) = Inr (Some (rat_of_int (col_id r)))"
    by (rule id_param_of_int)
  then show ?thesis
    using filter_fresh_id [OF assms(1)] by (simp add: select_by_id_def i(1) i(2))
qed

lemma create_Inr:
  assumes "wf_db hosted db" and "create hosted fa now db item = (Inr res, db')"
  obtains r where "insert_row hosted now db (insert_values item) = Inr (r, db')"
    and "res = Some (driver_row False r)"
    and "getById hosted None db' (Num (rat_of_int (col_id r))) = Some (driver_row False r)"
proof -
  from assms(2) obtain r where ins: "insert_row hosted now db (insert_values item) = Inr (r, db')"
    by (auto simp: create_def split: if_splits sum.splits list.splits)
  note sel = select_inserted [OF assms(1) ins]
  note fits = insert_row_Inr(5) [OF ins]
  have ret: "returned_row hosted r = driver_row False r"
    by (rule returned_row_fits [OF fits])
  have "res = Some (driver_row False r)"
    using assms(2) ins sel ret by (auto simp: create_def returned_row_def split: if_splits)
  moreover have "getById hosted None db' (Num (rat_of_int (col_id r))) = Some (driver_row False r)"
    by (simp add: getById_returned sel ret)
  ultimately show ?thesis
    using that ins by blast
qed

section \<open>The round-trip scenario evaluated\<close>

lemma floor_rat_numeral: "\<lfloor>numeral a / numeral b :: rat\<rfloor> = numeral a div numeral b"
  using floor_divide_of_int_eq [of "numeral a" "numeral b", where ?'a = rat] by simp

lemma insert_tokyo:
  "insert_row hosted 5 empty_db (insert_values tokyo_item) = Inr (tokyo_row, tokyo_db)"
  by (simp add: insert_row_def insert_values_def tokyo_item_def tokyo_row_def tokyo_db_def
      empty_db_def coerce_values_def store_integer_def store_decimal_def is_int4_def
      pg_round_def floor_rat_numeral)

lemma wf_empty_db: "wf_db hosted empty_db"
  by (simp add: wf_db_def empty_db_def)

lemma driver_tokyo: "driver_row False tokyo_row = tokyo_record"
  by (simp add: driver_row_def tokyo_row_def tokyo_record_def)

lemma tokyo_row_fits: "row_fits hosted tokyo_row"
  using insert_row_Inr(5) [OF insert_tokyo] .

lemma wf_tokyo_db: "wf_db hosted tokyo_db"
  using wf_insert_row [OF wf_empty_db insert_tokyo] .

lemma select_tokyo: "select_by_id hosted tokyo_db (Num 1) = Inr [tokyo_row]"
  using select_inserted [OF wf_empty_db insert_tokyo] by (simp add: tokyo_row_def)

lemma create_tokyo:
  "create hosted None 5 empty_db tokyo_item = (Inr (Some tokyo_record), tokyo_db)"
proof -
  have "returned_row hosted tokyo_row = tokyo_record"
    using returned_row_fits [OF tokyo_row_fits] by (simp add: driver_tokyo)
  moreover have "col_id tokyo_row = 1"
    by (simp add: tokyo_row_def)
  ultimately show ?thesis
    using select_tokyo [of False]
    by (auto simp: create_def insert_tokyo returned_row_def split: if_splits)
qed

lemma getById_tokyo: "getById hosted None tokyo_db (Num 1) = Some tokyo_record"
  using returned_row_fits [OF tokyo_row_fits, of hosted]
  by (simp add: getById_returned select_tokyo driver_tokyo)

section \<open>More on \<open>create\<close>\<close>

lemma create_no_fault:
  assumes "wf_db hosted db" and "insert_row hosted now db (insert_values item) = Inr (r, db')"
  shows "create hosted None now db item = (Inr (Some (driver_row False r)), db')"
proof -
  note sel = select_inserted [OF assms]
  have ret: "returned_row hosted r = driver_row False r"
    by (rule returned_row_fits [OF insert_row_Inr(5) [OF assms(2)]])
  show ?thesis
  proof (cases hosted)
    case True
    with assms(2) ret show ?thesis
      by (simp add: create_def returned_row_def)
  next
    case False
    with assms(2) sel show ?thesis
      by (simp add: create_def)
  qed
qed

lemma insert_row_succeeds:
  assumes "hosted \<longrightarrow> is_int4 (rat_of_int (next_id db)) \<and> is_int4 (new_rank item) \<and>
             \<bar>pg_round 8 (new_latitude item)\<bar> < 100 \<and> \<bar>pg_round 8 (new_longitude item)\<bar> < 1000"
  shows "\<exists>r db'. insert_row hosted now db (insert_values item) = Inr (r, db')"
  using assms
  by (simp add: insert_row_def insert_values_def coerce_values_def store_integer_def
      store_decimal_def Let_def)

lemma created_fields:
  assumes "insert_row hosted now db (insert_values item) = Inr (r, db')"
  shows "col_rank r = new_rank item" "col_destination r = new_destination item"
    "col_country r = new_country item" "col_reason r = new_reason item"
    "col_budget r = new_budget item" "col_timeline r = new_timeline item"
    "col_image_url r = or_null (new_image_url item)"
    "col_latitude r = (if hosted then pg_round 8 (new_latitude item) else new_latitude item)"
    "col_longitude r = (if hosted then pg_round 8 (new_longitude item) else new_longitude item)"
proof -
  from insert_row_Inr(6) [OF assms] obtain blank
    where "coerce_values hosted (insert_values item) blank = Inr r" by blast
  note f = coerce_values_fields [OF this]
  show "col_rank r = new_rank item" "col_destination r = new_destination item"
    "col_country r = new_country item" "col_reason r = new_reason item"
    "col_budget r = new_budget item" "col_timeline r = new_timeline item"
    "col_image_url r = or_null (new_image_url item)"
    using f(4-10) by (simp_all add: insert_values_def)
  show "col_latitude r = (if hosted then pg_round 8 (new_latitude item) else new_latitude item)"
    using f(11) by (auto simp: insert_values_def)
  show "col_longitude r = (if hosted then pg_round 8 (new_longitude item) else new_longitude item)"
    using f(12) by (auto simp: insert_values_def)
qed

lemma insert_fine:
  "insert_row True 5 empty_db (insert_values fine_item) = Inr (fine_row, fine_db)"
  by (simp add: insert_row_def insert_values_def fine_item_def fine_row_def fine_db_def
      tokyo_item_def tokyo_row_def empty_db_def coerce_values_def store_integer_def
      store_decimal_def is_int4_def pg_round_def floor_rat_numeral)

lemma driver_fine: "driver_row False fine_row = fine_record"
  by (simp add: driver_row_def fine_row_def fine_record_def tokyo_row_def tokyo_record_def)


section \<open>A first \<open>POST\<close> evaluated; the stored image_url\<close>

lemma half_floor: "\<lfloor>1 / 2 :: rat\<rfloor> = 0"
  by (simp add: floor_eq_iff)

lemma pg_round_0: "pg_round sc 0 = 0"
  by (simp add: pg_round_def half_floor)

lemma insert_post:
  "insert_row hosted 5 empty_db (insert_values (post_item tokyo_body)) = Inr (post_row, post_db)"
  by (simp add: insert_row_def insert_values_def post_item_def tokyo_body_def empty_partial_def
      post_row_def post_db_def empty_db_def coerce_values_def store_integer_def
      store_decimal_def is_int4_def pg_round_0)

lemma driver_post: "driver_row False post_row = post_record"
  by (simp add: driver_row_def post_row_def post_record_def)

lemma create_post:
  "create hosted None 5 empty_db (post_item tokyo_body) = (Inr (Some post_record), post_db)"
  using create_no_fault [OF wf_empty_db insert_post] by (simp add: driver_post)

lemma wf_post_db: "wf_db hosted post_db"
  using wf_insert_row [OF wf_empty_db insert_post] .

lemma POST_tokyo:
  "POST hosted None 5 empty_db (Some tokyo_body) = (Response 201 (Item (Some post_record)), post_db)"
  by (simp add: POST_def create_post) (simp add: tokyo_body_def empty_partial_def)

lemma getById_post: "getById hosted None post_db (Num 1) = Some post_record"
proof -
  have "col_id post_row = 1" by (simp add: post_row_def)
  then show ?thesis
    using create_Inr [OF wf_empty_db create_post] insert_post
    by (auto simp: driver_post)
qed

lemma create_image_null:
  assumes "wf_db hosted db" and "or_null (new_image_url item) = None"
    and "create hosted fa now db item = (Inr res, db')"
  shows "\<exists>rec r. res = Some rec \<and> image_url rec = None \<and> table db' = table db @ [r] \<and>
           col_image_url r = None"
proof -
  from create_Inr [OF assms(1,3)] obtain r
    where ins: "insert_row hosted now db (insert_values item) = Inr (r, db')"
      and res: "res = Some (driver_row False r)"
    by blast
  have "col_image_url r = None"
    using created_fields(7) [OF ins] assms(2) by simp
  moreover have "table db' = table db @ [r]"
    using insert_row_Inr(1) [OF ins] by simp
  ultimately show ?thesis
    using res by (simp add: driver_row_def)
qed


section \<open>Listing a well-formed store\<close>

lemma set_select_all [simp]: "set (select_all pos db) = set (table db)"
  by (simp add: select_all_def)

lemma getAll_no_fault_wf:
  assumes "wf_db hosted db"
  shows "getAll hosted None pos db = map (driver_row False) (select_all pos db)"
  using wf_db_all [OF assms] by (simp add: getAll_returned returned_row_fits)

lemma pg_round_tokyo_latitude: "pg_round 8 (356762 / 10000) = 356762 / 10000"
  by (simp add: pg_round_def floor_rat_numeral)

lemma pg_round_tokyo_longitude: "pg_round 8 (1396503 / 10000) = 1396503 / 10000"
  by (simp add: pg_round_def floor_rat_numeral)


section \<open>Ids that no stored record has\<close>

lemma select_unknown:
  assumes "\<forall>r\<in>set (table db). k \<noteq> Num (rat_of_int (col_id r))"
  shows "select_by_id hosted db k = Inr [] \<or> (\<exists>e. select_by_id hosted db k = Inl e)"
proof (cases "id_param hosted k")
  case (Inl e)
  then show ?thesis by (simp add: select_by_id_def)
next
  case (Inr q)
  have "filter (has_id q) (table db) = []"
  proof (cases q)
    case None
    then show ?thesis by (simp add: filter_empty_conv)
  next
    case (Some x)
    with Inr have "k = Num x"
      by (auto simp: id_param_def split: jsnum.splits if_splits)
    with assms Some show ?thesis
      by (auto simp: filter_empty_conv has_id_def)
  qed
  with Inr show ?thesis by (simp add: select_by_id_def)
qed

lemma getById_unknown:
  assumes "\<forall>r\<in>set (table db). k \<noteq> Num (rat_of_int (col_id r))"
  shows "getById hosted fa db k = None"
  using select_unknown [OF assms, of hosted] by (auto simp: getById_def)

lemma update_unknown:
  assumes "\<forall>r\<in>set (table db). k \<noteq> Num (rat_of_int (col_id r))"
  shows "update hosted fa now db k item = (None, db)"
  by (simp add: update_def getById_unknown [OF assms])

lemma delete_unknown:
  assumes "\<forall>r\<in>set (table db). k \<noteq> Num (rat_of_int (col_id r))"
  shows "delete_row hosted db k = Inr (0, db) \<or> (\<exists>e. delete_row hosted db k = Inl e)"
proof (cases "id_param hosted k")
  case (Inl e)
  then show ?thesis by (simp add: delete_row_def)
next
  case (Inr q)
  have none: "\<forall>r\<in>set (table db). \<not> has_id q r"
  proof (cases q)
    case None
    then show ?thesis by simp
  next
    case (Some x)
    with Inr have "k = Num x"
      by (auto simp: id_param_def split: jsnum.splits if_splits)
    with assms Some show ?thesis
      by (auto simp: has_id_def)
  qed
  then have "filter (has_id q) (table db) = []" "filter (\<lambda>r. \<not> has_id q r) (table db) = table db"
    by (simp_all add: filter_empty_conv filter_id_conv)
  with Inr show ?thesis by (simp add: delete_row_def)
qed

lemma remove_unknown:
  assumes "\<forall>r\<in>set (table db). k \<noteq> Num (rat_of_int (col_id r))"
  shows "remove hosted fa db k = (False, db)"
  using delete_unknown [OF assms, of hosted] by (auto simp: remove_def)


section \<open>The two outcomes of a \<open>POST\<close>\<close>




section \<open>Updates that fail\<close>

lemma parseInt_1: "parseInt ''1'' None = Num 1"
  by (simp add: parseInt_def is_ws_def is_digit_in_def digit_of_def digits_val_def has_hex_prefix_def)

lemma update_fault:
  "update hosted (Some (Suc 0)) now db k item = (None, db)"
  by (simp add: update_def split: option.splits)

lemma update_null_rank:
  assumes "getById hosted None db k = Some existing" and "p_rank item = Null"
  shows "update hosted None now db k item = (None, db)"
proof -
  from assms(1) obtain q r rs where q: "id_param hosted k = Inr q"
    and rows: "filter (has_id q) (table db) = r # rs"
    by (auto simp: getById_def select_by_id_def and_then_def split: sum.splits list.splits)
  then have "r \<in> set (filter (has_id q) (table db))"
    by simp
  then have "r \<in> set (table db)" "has_id q r"
    by simp_all
  have co: "coerce_values hosted (update_values item existing) x = Inl NotNullViolation" for x
    by (simp add: coerce_values_def update_values_def assms(2))
  have "update_rows (set_row hosted now (update_values item existing)) q t = Inl NotNullViolation"
    if "y \<in> set t" "has_id q y" for t y
    using that by (induction t) (auto simp: set_row_def co and_then_def split: sum.splits)
  from this [OF \<open>r \<in> set (table db)\<close> \<open>has_id q r\<close>]
  have "update_row hosted now db k (update_values item existing) = Inl NotNullViolation"
    by (simp add: update_row_def q)
  then show ?thesis
    by (simp add: update_def assms(1))
qed


section \<open>The order of a listing\<close>

lemma rank_returned_row [simp]: "rank (returned_row hosted r) = JNum (Num (col_rank r))"
  by (simp add: returned_row_def normalizeRow_def driver_row_def)

lemma id_returned_row [simp]: "id' (returned_row hosted r) = JNum (Num (rat_of_int (col_id r)))"
  by (simp add: returned_row_def normalizeRow_def driver_row_def)

lemma ascending_returned:
  "sorted (map col_rank rs) \<Longrightarrow> ascending_by_rank (map (returned_row hosted) rs)"
  by (simp add: ascending_by_rank_def sorted_wrt_map sorted_map)

lemma sorted_select_all: "sorted (map col_rank (select_all pos db))"
  by (simp add: select_all_def)

lemma mset_select_all: "mset (select_all pos db) = mset (table db)"
  by (simp add: select_all_def)


section \<open>Ranks that stay at least 1\<close>

lemma ranks_positive_iff: "ranks_positive db \<longleftrightarrow> (\<forall>r\<in>set (table db). 1 \<le> col_rank r)"
  by (simp add: ranks_positive_def list_all_iff)

lemma create_outcome:
  "snd (create hosted fa now db item) = db \<or>
   (\<exists>r. insert_row hosted now db (insert_values item) = Inr (r, snd (create hosted fa now db item)))"
  by (auto simp: create_def split: sum.splits list.splits)

lemma create_ranks_positive:
  assumes "ranks_positive db" and "1 \<le> new_rank item"
  shows "ranks_positive (snd (create hosted fa now db item))"
proof -
  from create_outcome [of hosted fa now db item] show ?thesis
  proof
    assume "snd (create hosted fa now db item) = db"
    with assms(1) show ?thesis by simp
  next
    assume "\<exists>r. insert_row hosted now db (insert_values item) = Inr (r, snd (create hosted fa now db item))"
    then obtain r where ins: "insert_row hosted now db (insert_values item) = Inr (r, snd (create hosted fa now db item))"
      by blast
    have "table (snd (create hosted fa now db item)) = table db @ [r]"
      using insert_row_Inr(1) [OF ins] by simp
    moreover have "1 \<le> col_rank r"
      using created_fields(1) [OF ins] assms(2) by simp
    ultimately show ?thesis
      using assms(1) by (simp add: ranks_positive_iff)
  qed
qed

lemma update_rows_Inr:
  "update_rows f q t = Inr t' \<Longrightarrow>
   list_all2 (\<lambda>r r'. (has_id q r \<and> f r = Inr r') \<or> (\<not> has_id q r \<and> r' = r)) t t'"
proof (induction t arbitrary: t')
  case Nil
  then show ?case by simp
next
  case (Cons x t)
  show ?case
  proof (cases "has_id q x")
    case True
    with Cons.prems obtain x' ts where "f x = Inr x'" "update_rows f q t = Inr ts" "t' = x' # ts"
      by (auto simp: and_then_eq_Inr)
    with Cons.IH [of ts] True show ?thesis by simp
  next
    case False
    with Cons.prems obtain ts where "update_rows f q t = Inr ts" "t' = x # ts"
      by (auto simp: and_then_eq_Inr)
    with Cons.IH [of ts] False show ?thesis by simp
  qed
qed

lemma snd_POST:
  "snd (POST hosted fa now db (Some body)) =
     (if falsy_str (p_destination body) \<or> falsy_str (p_country body) then db
      else snd (create hosted fa now db (post_item body)))"
  by (simp add: POST_def split: prod.splits sum.splits)

lemma snd_PUT:
  "snd (PUT hosted fa now db seg (Some body)) =
     (if falsy_str (p_destination body) \<or> falsy_str (p_country body) then db
      else snd (update hosted fa now db (parseInt seg None)
                  \<lparr>p_rank = p_rank body, p_destination = p_destination body,
                   p_country = p_country body, p_latitude = p_latitude body,
                   p_longitude = p_longitude body, p_reason = p_reason body,
                   p_budget = p_budget body, p_timeline = p_timeline body,
                   p_image_url = p_image_url body\<rparr>))"
  by (simp add: PUT_def split: prod.splits option.splits)

lemma snd_PATCH:
  "snd (PATCH hosted fa clock db (Some (RanksArray ranks))) = snd (updateRanks hosted fa clock db ranks)"
  by (simp add: PATCH_def split: prod.splits bool.splits)

lemma snd_DELETE: "snd (DELETE hosted fa db seg) = snd (remove hosted fa db (parseInt seg None))"
  by (simp add: DELETE_def split: prod.splits bool.splits)

lemma list_all2_right: "list_all2 P xs ys \<Longrightarrow> y \<in> set ys \<Longrightarrow> \<exists>x\<in>set xs. P x y"
  by (induction rule: list_all2_induct) auto

lemma getById_Some:
  assumes "getById hosted fa db k = Some existing"
  obtains r where "r \<in> set (table db)" and "existing = returned_row hosted r"
proof -
  from assms obtain q r rs where "filter (has_id q) (table db) = r # rs"
    and e: "existing = returned_row hosted r"
    by (auto simp: getById_returned select_by_id_def and_then_def split: if_splits sum.splits list.splits)
  then have "r \<in> set (filter (has_id q) (table db))" by simp
  then have "r \<in> set (table db)" by simp
  with e that show ?thesis by blast
qed

lemma update_outcome:
  "snd (update hosted fa now db k item) = db \<or>
   (\<exists>existing changed. getById hosted fa db k = Some existing \<and>
      update_row hosted now db k (update_values item existing) =
        Inr (changed, snd (update hosted fa now db k item)))"
  by (auto simp: update_def split: option.splits sum.splits list.splits)

lemma set_row_rank:
  assumes "set_row hosted now v r = Inr r'"
  shows "v_rank v = JNum (Num (col_rank r'))"
proof -
  from assms obtain r0 where "coerce_values hosted v r = Inr r0" and "r' = r0\<lparr>col_updated_at := Some now\<rparr>"
    by (auto simp: set_row_def and_then_eq_Inr)
  with coerce_values_fields(5) [of hosted v r r0] show ?thesis by simp
qed

lemma update_ranks_positive:
  assumes "ranks_positive db" and "rank_given_ok (p_rank item)"
  shows "ranks_positive (snd (update hosted fa now db k item))"
proof -
  from update_outcome [of hosted fa now db k item] show ?thesis
  proof
    assume "snd (update hosted fa now db k item) = db"
    with assms(1) show ?thesis by simp
  next
    assume "\<exists>existing changed. getById hosted fa db k = Some existing \<and>
      update_row hosted now db k (update_values item existing) =
        Inr (changed, snd (update hosted fa now db k item))"
    then obtain existing changed where ex: "getById hosted fa db k = Some existing"
      and up: "update_row hosted now db k (update_values item existing) =
        Inr (changed, snd (update hosted fa now db k item))"
      by blast
    let ?v = "update_values item existing"
    from getById_Some [OF ex] obtain r0 where r0: "r0 \<in> set (table db)"
      and e: "existing = returned_row hosted r0" by blast
    have pos0: "1 \<le> col_rank r0"
      using assms(1) r0 by (simp add: ranks_positive_iff)
    have new: "1 \<le> q" if "v_rank ?v = JNum (Num q)" for q
      using that assms(2) pos0 e
      by (cases "p_rank item") (simp_all add: update_values_def)
    from up obtain q t' where rows: "update_rows (set_row hosted now ?v) q (table db) = Inr t'"
      and eq: "db\<lparr>table := t'\<rparr> = snd (update hosted fa now db k item)"
      by (auto simp: update_row_def and_then_eq_Inr)
    have t': "table (snd (update hosted fa now db k item)) = t'"
      by (simp add: eq [symmetric])
    from update_rows_Inr [OF rows]
    have l: "list_all2 (\<lambda>r r'. (has_id q r \<and> set_row hosted now ?v r = Inr r') \<or> (\<not> has_id q r \<and> r' = r)) (table db) t'" .
    have "1 \<le> col_rank r'" if "r' \<in> set t'" for r'
    proof -
      from that l obtain r where r: "r \<in> set (table db)"
        and rel: "(has_id q r \<and> set_row hosted now ?v r = Inr r') \<or> (\<not> has_id q r \<and> r' = r)"
        by (blast dest: list_all2_right)
      from rel show ?thesis
      proof
        assume "has_id q r \<and> set_row hosted now ?v r = Inr r'"
        then have "set_row hosted now ?v r = Inr r'" by simp
        from set_row_rank [OF this] new show ?thesis by simp
      next
        assume "\<not> has_id q r \<and> r' = r"
        with r assms(1) show ?thesis by (simp add: ranks_positive_iff)
      qed
    qed
    then show ?thesis
      by (simp add: ranks_positive_iff t')
  qed
qed

lemma remove_ranks_positive:
  assumes "ranks_positive db"
  shows "ranks_positive (snd (remove hosted fa db k))"
  using assms
  by (auto simp: remove_def delete_row_def and_then_def ranks_positive_iff split: sum.splits)

lemma update_rank_ranks_positive:
  assumes "ranks_positive db" and "1 \<le> rk" and "update_rank hosted now db k rk = Inr db'"
  shows "ranks_positive db'"
  using assms
  by (auto simp: update_rank_def and_then_eq_Inr ranks_positive_iff set_rank_def
      dest!: store_integer_Inr)

lemma updateRanks_from_ranks_positive:
  assumes "ranks_positive db" and "pairs_ok ranks"
  shows "ranks_positive (snd (updateRanks_from hosted fa clock i db ranks))"
  using assms
proof (induction ranks arbitrary: db i)
  case Nil
  then show ?case by simp
next
  case (Cons p ranks)
  obtain k rk where p: "p = (k, rk)" by (cases p)
  from Cons.prems(2) have rk: "1 \<le> rk" and rest: "pairs_ok ranks"
    by (simp_all add: pairs_ok_def p)
  show ?case
  proof (cases "fa = Some i")
    case True
    with Cons.prems(1) show ?thesis by (simp add: p)
  next
    case False
    show ?thesis
    proof (cases "update_rank hosted (clock i) db k rk")
      case (Inl e)
      with False Cons.prems(1) show ?thesis by (simp add: p)
    next
      case (Inr db')
      from update_rank_ranks_positive [OF Cons.prems(1) rk Inr]
      have "ranks_positive db'" .
      from Cons.IH [OF this rest] False Inr show ?thesis
        by (simp add: p)
    qed
  qed
qed

lemma step_ranks_positive:
  assumes "ranks_positive db" and "ranks_ok c"
  shows "ranks_positive (step hosted db c)"
proof (cases c)
  case (Create fa now item)
  with assms show ?thesis by (simp add: create_ranks_positive)
next
  case (Update fa now k item)
  with assms show ?thesis by (simp add: update_ranks_positive)
next
  case (UpdateRanks fa clock ranks)
  with assms show ?thesis by (simp add: updateRanks_def updateRanks_from_ranks_positive)
next
  case (Remove fa k)
  with assms show ?thesis by (simp add: remove_ranks_positive)
next
  case (Post fa now json)
  show ?thesis
  proof (cases json)
    case None
    with Post assms show ?thesis by (simp add: POST_def)
  next
    case (Some body)
    have "1 \<le> new_rank (post_item body)"
      using assms(2) Post Some by (simp add: post_item_def)
    from create_ranks_positive [OF assms(1) this, of hosted fa now]
    show ?thesis
      using assms(1) by (simp add: Post Some snd_POST)
  qed
next
  case (Put fa now seg json)
  show ?thesis
  proof (cases json)
    case None
    with Put assms show ?thesis by (simp add: PUT_def)
  next
    case (Some body)
    let ?item = "\<lparr>p_rank = p_rank body, p_destination = p_destination body,
                        p_country = p_country body, p_latitude = p_latitude body,
                        p_longitude = p_longitude body, p_reason = p_reason body,
                        p_budget = p_budget body, p_timeline = p_timeline body,
                        p_image_url = p_image_url body\<rparr>"
    have "rank_given_ok (p_rank ?item)"
      using assms(2) Put Some by simp
    from update_ranks_positive [OF assms(1) this, of hosted fa now "parseInt seg None"]
    show ?thesis
      using assms(1) by (simp add: Put Some snd_PUT)
  qed
next
  case (Patch fa clock json)
  show ?thesis
  proof (cases json)
    case None
    with Patch assms show ?thesis by (simp add: PATCH_def)
  next
    case (Some given)
    show ?thesis
    proof (cases given)
      case (RanksArray ranks)
      have "pairs_ok ranks"
        using assms(2) Patch Some RanksArray by simp
      from updateRanks_from_ranks_positive [OF assms(1) this, of hosted fa clock 0]
      show ?thesis
        by (simp add: Patch Some RanksArray snd_PATCH updateRanks_def)
    next
      case RanksFalsy
      with Patch Some assms show ?thesis by (simp add: PATCH_def)
    next
      case RanksNotArray
      with Patch Some assms show ?thesis by (simp add: PATCH_def)
    qed
  qed
next
  case (Delete fa seg)
  from remove_ranks_positive [OF assms(1), of hosted fa "parseInt seg None"]
  show ?thesis
    by (simp add: Delete snd_DELETE)
qed

lemma run_ranks_positive:
  assumes "ranks_positive db" and "list_all ranks_ok calls"
  shows "ranks_positive (run hosted calls db)"
  using assms unfolding run_def
  by (induction calls arbitrary: db) (simp_all add: step_ranks_positive)

section \<open>Ranks below 1, evaluated\<close>

lemma POST_negative_rank:
  "snd (POST hosted None 5 empty_db (Some negative_rank_body)) =
     \<lparr>table = [post_row\<lparr>col_rank := - 1\<rparr>], next_id = 2\<rparr>"
proof -
  have "insert_row hosted 5 empty_db (insert_values (post_item negative_rank_body)) =
      Inr (post_row\<lparr>col_rank := - 1\<rparr>, \<lparr>table = [post_row\<lparr>col_rank := - 1\<rparr>], next_id = 2\<rparr>)"
    by (simp add: insert_row_def insert_values_def post_item_def negative_rank_body_def
        tokyo_body_def empty_partial_def post_row_def empty_db_def coerce_values_def
        store_integer_def store_decimal_def is_int4_def pg_round_0)
  from create_no_fault [OF wf_empty_db this] show ?thesis
    by (simp add: snd_POST negative_rank_body_def tokyo_body_def empty_partial_def)
qed

lemma updateRanks_zero:
  "snd (updateRanks hosted None const_clock post_db [(1, 0)]) =
     \<lparr>table = [post_row\<lparr>col_rank := 0, col_updated_at := Some 9\<rparr>], next_id = 2\<rparr>"
  by (simp add: updateRanks_def update_rank_def id_param_def store_integer_def is_int4_def
      has_id_def set_rank_def post_db_def post_row_def const_clock_def)


section \<open>A batch of rank updates, row by row\<close>

lemma update_rank_cases:
  "update_rank hosted now db k rk =
     (if pair_rejected hosted k rk then Inl InvalidInteger
      else Inr (db\<lparr>table := map (\<lambda>r. if k = rat_of_int (col_id r) then set_rank now rk r else r) (table db)\<rparr>))"
  by (auto simp: update_rank_def id_param_def store_integer_def has_id_def pair_rejected_def)

lemma key_rank_updateRanks_from:
  "map key_rank (table (snd (updateRanks_from hosted None clock n db ps))) =
     map (\<lambda>r. (col_id r, rank_after hosted ps (col_id r) (col_rank r))) (table db)"
proof (induction ps arbitrary: db n)
  case Nil
  show ?case by (simp add: key_rank_def)
next
  case (Cons p ps)
  obtain k rk where p: "p = (k, rk)" by (cases p)
  show ?case
  proof (cases "pair_rejected hosted k rk")
    case True
    then show ?thesis
      by (simp add: p update_rank_cases key_rank_def)
  next
    case False
    let ?db = "db\<lparr>table := map (\<lambda>r. if k = rat_of_int (col_id r) then set_rank (clock n) rk r else r) (table db)\<rparr>"
    have "updateRanks_from hosted None clock n db (p # ps) = updateRanks_from hosted None clock (Suc n) ?db ps"
      using False by (simp add: p update_rank_cases)
    then show ?thesis
      using False by (simp add: Cons.IH p set_rank_def comp_def)
  qed
qed

lemma fst_updateRanks_from:
  "fst (updateRanks_from hosted None clock n db ps) =
     list_all (\<lambda>p. \<not> pair_rejected hosted (fst p) (snd p)) ps"
proof (induction ps arbitrary: db n)
  case Nil
  show ?case by simp
next
  case (Cons p ps)
  obtain k rk where p: "p = (k, rk)" by (cases p)
  show ?case
    by (simp add: p update_rank_cases Cons.IH)
qed

lemma rank_after_idem:
  "rank_after hosted ps i (rank_after hosted ps i q) = rank_after hosted ps i q"
proof (induction ps arbitrary: q)
  case Nil
  show ?case by simp
next
  case (Cons p ps)
  obtain k rk where p: "p = (k, rk)" by (cases p)
  show ?case
  proof (cases "pair_rejected hosted k rk")
    case True
    then show ?thesis by (simp add: p)
  next
    case False
    show ?thesis
    proof (cases "k = rat_of_int i")
      case True
      with False show ?thesis by (simp add: p)
    next
      case neq: False
      with False Cons.IH [of q] show ?thesis by (simp add: p)
    qed
  qed
qed

lemma map_insort_key:
  "map f (insort_key (\<lambda>x. g (f x)) x ys) = insort_key g (f x) (map f ys)"
  by (induction ys) simp_all

lemma map_sort_key:
  "map f (sort_key (\<lambda>x. g (f x)) xs) = sort_key g (map f xs)"
  by (induction xs) (simp_all add: map_insort_key)

lemma key_rank_select_all:
  "map key_rank (select_all pos db) = order_keys pos (map key_rank (table db))"
proof -
  have inner: "map key_rank (sort_key (\<lambda>r. pos (col_id r)) (table db)) =
      sort_key (\<lambda>p. pos (fst p)) (map key_rank (table db))"
    using map_sort_key [of key_rank "\<lambda>p. pos (fst p)" "table db"]
    by (simp add: key_rank_def)
  have outer: "map key_rank (sort_key col_rank xs) = sort_key snd (map key_rank xs)" for xs
    using map_sort_key [of key_rank snd xs]
    by (simp add: key_rank_def)
  show ?thesis
    by (simp only: select_all_def order_keys_def outer inner)
qed

lemma getAll_keys:
  "map (\<lambda>t. (id' t, rank t)) (getAll hosted None pos db) =
     map as_listed (order_keys pos (map key_rank (table db)))"
proof -
  have "map (\<lambda>t. (id' t, rank t)) (getAll hosted None pos db) =
      map as_listed (map key_rank (select_all pos db))"
    by (simp add: getAll_returned key_rank_def as_listed_def comp_def)
  then show ?thesis
    by (simp only: key_rank_select_all)
qed

lemma rank_getAll:
  "map rank (getAll hosted None pos db) = map (\<lambda>p. JNum (Num (snd p))) (order_keys pos (map key_rank (table db)))"
proof -
  have "map rank (getAll hosted None pos db) = map snd (map (\<lambda>t. (id' t, rank t)) (getAll hosted None pos db))"
    by (simp add: comp_def)
  then show ?thesis
    by (simp add: getAll_keys as_listed_def comp_def)
qed

lemma mset_order_keys: "mset (order_keys pos ks) = mset ks"
  by (simp add: order_keys_def)

lemma sorted_order_keys: "sorted (map snd (order_keys pos ks))"
  by (simp add: order_keys_def)

lemma order_keys_unique:
  assumes "distinct (map snd (order_keys pos ks))"
  shows "order_keys pos' ks = order_keys pos ks"
proof (rule map_sorted_distinct_set_unique [where f = snd])
  have set: "set (order_keys pos' ks) = set (order_keys pos ks)"
    using mset_order_keys [of pos' ks] mset_order_keys [of pos ks] by (metis mset_eq_setD)
  show "set (order_keys pos' ks) = set (order_keys pos ks)" by (rule set)
  show "inj_on snd (set (order_keys pos' ks) \<union> set (order_keys pos ks))"
    using assms by (simp add: set distinct_map)
  show "sorted (map snd (order_keys pos' ks))" "sorted (map snd (order_keys pos ks))"
    by (rule sorted_order_keys)+
  show "distinct (map snd (order_keys pos ks))" by (rule assms)
  have "mset (map snd (order_keys pos' ks)) = mset (map snd (order_keys pos ks))"
    by (simp add: mset_order_keys)
  from mset_eq_imp_distinct_iff [OF this] assms
  show "distinct (map snd (order_keys pos' ks))" by simp
qed

lemma updateRanks_twice_keys:
  "map key_rank (table (snd (updateRanks hosted None clock2 (snd (updateRanks hosted None clock1 db ranks)) ranks))) =
   map key_rank (table (snd (updateRanks hosted None clock1 db ranks)))"
proof -
  let ?once = "snd (updateRanks_from hosted None clock1 0 db ranks)"
  let ?g = "\<lambda>p. (fst p, rank_after hosted ranks (fst p) (snd p))"
  have step: "map key_rank (table (snd (updateRanks_from hosted None c 0 d ranks))) = map ?g (map key_rank (table d))" for c d
    by (simp add: key_rank_updateRanks_from key_rank_def comp_def)
  have "map key_rank (table (snd (updateRanks_from hosted None clock2 0 ?once ranks))) =
      map ?g (map ?g (map key_rank (table db)))"
    by (simp only: step)
  also have "\<dots> = map ?g (map key_rank (table db))"
    by (simp add: rank_after_idem comp_def)
  also have "\<dots> = map key_rank (table ?once)"
    by (simp only: step)
  finally show ?thesis
    by (simp only: updateRanks_def)
qed


section \<open>Updating with the empty partial\<close>

lemma getById_wf:
  assumes "wf_db hosted db" and "getById hosted fa db k = Some existing"
  obtains r0 where "r0 \<in> set (table db)" and "existing = driver_row False r0"
    and "k = Num (rat_of_int (col_id r0))"
    and "id_param hosted k = Inr (Some (rat_of_int (col_id r0)))"
proof -
  from assms(2) obtain q r rs where q: "id_param hosted k = Inr q"
    and rows: "filter (has_id q) (table db) = r # rs"
    and e: "existing = returned_row hosted r"
    by (auto simp: getById_returned select_by_id_def and_then_def split: if_splits sum.splits list.splits)
  from rows have "r \<in> set (filter (has_id q) (table db))" by simp
  then have r: "r \<in> set (table db)" and h: "has_id q r" by simp_all
  from h have qv: "q = Some (rat_of_int (col_id r))" by (simp add: has_id_def)
  with q have k: "k = Num (rat_of_int (col_id r))"
    by (auto simp: id_param_def split: jsnum.splits if_splits)
  have "existing = driver_row False r"
    using e returned_row_fits wf_db_all [OF assms(1)] r by auto
  with r k q qv that show ?thesis by blast
qed

lemma coerce_own_values:
  assumes "row_fits hosted r"
  shows "coerce_values hosted (update_values empty_partial (driver_row False r)) r = Inr r"
proof -
  have "hosted \<Longrightarrow> is_int4 (col_rank r) \<and> pg_round 8 (col_latitude r) = col_latitude r \<and>
      \<bar>col_latitude r\<bar> < 100 \<and> pg_round 8 (col_longitude r) = col_longitude r \<and>
      \<bar>col_longitude r\<bar> < 1000"
    using assms by (simp add: row_fits_def fits_decimal_def)
  then show ?thesis
    by (cases hosted)
      (simp_all add: coerce_values_def update_values_def empty_partial_def driver_row_def
        store_integer_def store_decimal_def)
qed

lemma update_rows_touch:
  assumes "distinct (map col_id t)" and "r0 \<in> set t"
    and "f r0 = Inr (r0\<lparr>col_updated_at := Some now\<rparr>)"
  shows "update_rows f (Some (rat_of_int (col_id r0))) t = Inr (map (touch now (col_id r0)) t)"
proof -
  have "update_rows f (Some (rat_of_int (col_id r0))) s = Inr (map (touch now (col_id r0)) s)"
    if "set s \<subseteq> set t" for s
    using that
  proof (induction s)
    case Nil
    show ?case by simp
  next
    case (Cons x s)
    then have x: "x \<in> set t" and s: "set s \<subseteq> set t" by simp_all
    show ?case
    proof (cases "col_id x = col_id r0")
      case True
      with assms(1,2) x have "x = r0"
        by (meson distinct_map inj_on_eq_iff)
      with Cons.IH [OF s] assms(3) show ?thesis
        by (simp add: touch_def)
    next
      case False
      with Cons.IH [OF s] show ?thesis
        by (simp add: touch_def)
    qed
  qed
  then show ?thesis by simp
qed

lemma filter_unique_key:
  "distinct (map f xs) \<Longrightarrow> x \<in> set xs \<Longrightarrow> filter (\<lambda>y. f y = f x) xs = [x]"
  by (induction xs) (auto simp: filter_empty_conv image_iff)

lemma has_id_eq: "has_id (Some (rat_of_int i)) = (\<lambda>r. col_id r = i)"
  by (simp add: fun_eq_iff)

lemma update_row_empty_partial:
  assumes "wf_db hosted db" and "r0 \<in> set (table db)"
  shows "update_row hosted now db (Num (rat_of_int (col_id r0)))
           (update_values empty_partial (driver_row False r0)) =
         Inr ([r0\<lparr>col_updated_at := Some now\<rparr>],
              db\<lparr>table := map (touch now (col_id r0)) (table db)\<rparr>)"
proof -
  have fits: "row_fits hosted r0"
    using wf_db_all [OF assms(1)] assms(2) by blast
  have d: "distinct (map col_id (table db))"
    using assms(1) by (simp add: wf_db_def)
  have p: "id_param hosted (Num (rat_of_int (col_id r0))) = Inr (Some (rat_of_int (col_id r0)))"
    using fits by (intro id_param_of_int) (simp add: row_fits_def)
  have f: "set_row hosted now (update_values empty_partial (driver_row False r0)) r0 =
      Inr (r0\<lparr>col_updated_at := Some now\<rparr>)"
    by (simp add: set_row_def coerce_own_values [OF fits])
  have "filter (\<lambda>r. col_id r = col_id r0) (map (touch now (col_id r0)) (table db)) =
      map (touch now (col_id r0)) (filter (\<lambda>r. col_id r = col_id r0) (table db))"
    by (induction "table db") (simp_all add: filter_map comp_def touch_def)
  then have changed: "filter (has_id (Some (rat_of_int (col_id r0)))) (map (touch now (col_id r0)) (table db)) =
      [r0\<lparr>col_updated_at := Some now\<rparr>]"
    by (simp add: has_id_eq filter_unique_key [OF d assms(2)] touch_def)
  note rows = update_rows_touch [of "table db" r0
      "set_row hosted now (update_values empty_partial (driver_row False r0))" now, OF d assms(2) f]
  show ?thesis
    by (simp add: update_row_def p rows changed)
qed

lemma getById_fault_free:
  "fa \<noteq> Some 0 \<Longrightarrow> getById hosted fa db k = getById hosted None db k"
  by (simp add: getById_def)

lemma getById_faulty: "getById hosted (Some 0) db k = None"
  by (simp add: getById_def)

lemma row_fits_touched:
  "row_fits hosted r \<Longrightarrow> row_fits hosted (r\<lparr>col_updated_at := t\<rparr>)"
  by (simp add: row_fits_def)

lemma driver_row_touched:
  "driver_row False (r\<lparr>col_updated_at := t\<rparr>) = (driver_row False r)\<lparr>updated_at := t\<rparr>"
  by (simp add: driver_row_def)

lemma update_empty_partial:
  assumes "wf_db hosted db" and "getById hosted None db k = Some existing"
  shows "\<exists>r0. r0 \<in> set (table db) \<and> existing = driver_row False r0 \<and>
           update hosted None now db k empty_partial =
             (Some (existing\<lparr>updated_at := Some now\<rparr>),
              db\<lparr>table := map (touch now (col_id r0)) (table db)\<rparr>) \<and>
           getById hosted None (db\<lparr>table := map (touch now (col_id r0)) (table db)\<rparr>) k =
             Some (existing\<lparr>updated_at := Some now\<rparr>) \<and>
           (\<forall>fa. snd (update hosted fa now db k empty_partial) = db \<or>
             snd (update hosted fa now db k empty_partial) =
               db\<lparr>table := map (touch now (col_id r0)) (table db)\<rparr>)"
proof -
  from getById_wf [OF assms] obtain r0 where r0: "r0 \<in> set (table db)"
    and e: "existing = driver_row False r0"
    and k: "k = Num (rat_of_int (col_id r0))"
    and p: "id_param hosted k = Inr (Some (rat_of_int (col_id r0)))"
    by blast
  let ?r = "r0\<lparr>col_updated_at := Some now\<rparr>"
  let ?db = "db\<lparr>table := map (touch now (col_id r0)) (table db)\<rparr>"
  have up: "update_row hosted now db k (update_values empty_partial existing) = Inr ([?r], ?db)"
    unfolding k e by (rule update_row_empty_partial [OF assms(1) r0])
  have fits: "row_fits hosted ?r"
    using wf_db_all [OF assms(1)] r0 by (simp add: row_fits_touched)
  have ret: "returned_row hosted ?r = existing\<lparr>updated_at := Some now\<rparr>"
    by (simp add: returned_row_fits [OF fits] driver_row_touched e)
  have d: "distinct (map col_id (table db))"
    using assms(1) by (simp add: wf_db_def)
  have "filter (\<lambda>r. col_id r = col_id r0) (map (touch now (col_id r0)) (table db)) =
      map (touch now (col_id r0)) (filter (\<lambda>r. col_id r = col_id r0) (table db))"
    by (induction "table db") (simp_all add: filter_map comp_def touch_def)
  then have sel: "select_by_id hosted ?db k = Inr [?r]"
    by (simp add: select_by_id_def p has_id_eq filter_unique_key [OF d r0] touch_def)
  have get: "getById hosted None ?db k = Some (existing\<lparr>updated_at := Some now\<rparr>)"
    by (simp add: getById_returned sel ret)
  have res: "update hosted None now db k empty_partial = (Some (existing\<lparr>updated_at := Some now\<rparr>), ?db)"
  proof (cases hosted)
    case True
    with ret have "normalizeRow (driver_row True ?r) = existing\<lparr>updated_at := Some now\<rparr>"
      by (simp add: returned_row_def)
    with True show ?thesis
      using assms(2) up by (simp add: update_def)
  next
    case False
    with get show ?thesis
      using assms(2) up by (simp add: update_def)
  qed
  have any: "snd (update hosted fa now db k empty_partial) = db \<or>
      snd (update hosted fa now db k empty_partial) = ?db" for fa
  proof (cases "fa = Some 0")
    case True
    then show ?thesis by (simp add: update_def getById_faulty)
  next
    case False
    from update_outcome [of hosted fa now db k empty_partial] show ?thesis
    proof
      assume "snd (update hosted fa now db k empty_partial) = db"
      then show ?thesis by simp
    next
      assume "\<exists>existing changed. getById hosted fa db k = Some existing \<and>
        update_row hosted now db k (update_values empty_partial existing) =
          Inr (changed, snd (update hosted fa now db k empty_partial))"
      then show ?thesis
        using assms(2) up by (auto simp: getById_fault_free [OF False])
    qed
  qed
  show ?thesis
    by (intro exI [of _ r0] conjI allI) (rule r0 e res get any)+
qed

lemma touch_frame: "(touch now i r)\<lparr>col_updated_at := None\<rparr> = r\<lparr>col_updated_at := None\<rparr>"
  by (simp add: touch_def)


section \<open>Every reachable store is well-formed\<close>

lemma set_row_keeps:
  assumes "set_row hosted now v r = Inr r'"
  shows "col_id r' = col_id r" and "row_fits hosted r \<Longrightarrow> row_fits hosted r'"
proof -
  from assms obtain r0 where co: "coerce_values hosted v r = Inr r0"
    and r': "r' = r0\<lparr>col_updated_at := Some now\<rparr>"
    by (auto simp: set_row_def and_then_eq_Inr)
  note f = coerce_values_fields [OF co]
  show "col_id r' = col_id r"
    using f(1) r' by simp
  show "row_fits hosted r'" if "row_fits hosted r"
    using that f(1) f(13) r' by (simp add: row_fits_def)
qed

lemma update_rows_keeps:
  assumes "update_rows f q t = Inr t'"
    and "\<And>r r'. f r = Inr r' \<Longrightarrow> col_id r' = col_id r \<and> (P r \<longrightarrow> P r')"
  shows "map col_id t' = map col_id t \<and> (list_all P t \<longrightarrow> list_all P t')"
  using assms(1)
proof (induction t arbitrary: t')
  case Nil
  then show ?case by simp
next
  case (Cons x t)
  show ?case
  proof (cases "has_id q x")
    case True
    with Cons.prems obtain x' ts where x': "f x = Inr x'" and ts: "update_rows f q t = Inr ts"
      and t': "t' = x' # ts"
      by (auto simp: and_then_eq_Inr)
    from assms(2) [OF x'] Cons.IH [OF ts] show ?thesis
      by (simp add: t')
  next
    case False
    with Cons.prems obtain ts where ts: "update_rows f q t = Inr ts" and t': "t' = x # ts"
      by (auto simp: and_then_eq_Inr)
    from Cons.IH [OF ts] show ?thesis
      by (simp add: t')
  qed
qed

lemma wf_db_iff:
  "wf_db hosted db \<longleftrightarrow>
     distinct (map col_id (table db)) \<and>
     list_all (\<lambda>r. col_id r < next_id db \<and> row_fits hosted r) (table db)"
  by (simp add: wf_db_def)

lemma wf_update:
  assumes "wf_db hosted db"
  shows "wf_db hosted (snd (update hosted fa now db k item))"
proof -
  from update_outcome [of hosted fa now db k item] show ?thesis
  proof
    assume "snd (update hosted fa now db k item) = db"
    with assms show ?thesis by simp
  next
    assume "\<exists>existing changed. getById hosted fa db k = Some existing \<and>
      update_row hosted now db k (update_values item existing) =
        Inr (changed, snd (update hosted fa now db k item))"
    then obtain existing changed where
      up: "update_row hosted now db k (update_values item existing) =
        Inr (changed, snd (update hosted fa now db k item))"
      by blast
    let ?v = "update_values item existing"
    from up obtain q t' where rows: "update_rows (set_row hosted now ?v) q (table db) = Inr t'"
      and eq: "db\<lparr>table := t'\<rparr> = snd (update hosted fa now db k item)"
      by (auto simp: update_row_def and_then_eq_Inr)
    have keep: "col_id r' = col_id r \<and>
        (col_id r < next_id db \<and> row_fits hosted r \<longrightarrow> col_id r' < next_id db \<and> row_fits hosted r')"
      if "set_row hosted now ?v r = Inr r'" for r r'
      using set_row_keeps [OF that] by simp
    from update_rows_keeps [OF rows, of "\<lambda>r. col_id r < next_id db \<and> row_fits hosted r"] keep
    have "map col_id t' = map col_id (table db)"
      and "list_all (\<lambda>r. col_id r < next_id db \<and> row_fits hosted r) (table db) \<longrightarrow>
           list_all (\<lambda>r. col_id r < next_id db \<and> row_fits hosted r) t'"
      by blast+
    with assms have "wf_db hosted (db\<lparr>table := t'\<rparr>)"
      by (simp add: wf_db_iff)
    then show ?thesis
      by (simp only: eq)
  qed
qed

lemma wf_create:
  assumes "wf_db hosted db"
  shows "wf_db hosted (snd (create hosted fa now db item))"
  using create_outcome [of hosted fa now db item] assms wf_insert_row [OF assms]
  by auto

lemma wf_remove:
  assumes "wf_db hosted db"
  shows "wf_db hosted (snd (remove hosted fa db k))"
  using assms
  by (auto simp: remove_def delete_row_def and_then_def wf_db_iff list_all_iff distinct_map_filter
      split: sum.splits)

lemma wf_update_rank:
  assumes "wf_db hosted db" and "update_rank hosted now db k rk = Inr db'"
  shows "wf_db hosted db'"
proof -
  let ?g = "\<lambda>r. if k = rat_of_int (col_id r) then set_rank now rk r else r"
  from assms(2) have ok: "\<not> pair_rejected hosted k rk" and db': "db' = db\<lparr>table := map ?g (table db)\<rparr>"
    by (simp_all add: update_rank_cases split: if_splits)
  have ids: "map col_id (map ?g (table db)) = map col_id (table db)"
    by (simp add: set_rank_def comp_def)
  have fits: "row_fits hosted (?g r)" if "row_fits hosted r" for r
    using that ok by (auto simp: row_fits_def set_rank_def pair_rejected_def)
  have key: "col_id (?g r) = col_id r" for r
    by (simp add: set_rank_def)
  have "col_id (?g r) < next_id db \<and> row_fits hosted (?g r)" if "r \<in> set (table db)" for r
    using wf_db_all [OF assms(1)] that fits [of r] by (simp only: key)
  then have "list_all ((\<lambda>r. col_id r < next_id db \<and> row_fits hosted r) \<circ> ?g) (table db)"
    unfolding list_all_iff comp_def by blast
  then have "list_all (\<lambda>r. col_id r < next_id db \<and> row_fits hosted r) (map ?g (table db))"
    by (simp only: list.pred_map)
  moreover have "distinct (map col_id (map ?g (table db)))"
    unfolding ids using assms(1) by (simp add: wf_db_iff)
  moreover have "table db' = map ?g (table db)" and "next_id db' = next_id db"
    by (simp_all add: db')
  ultimately show ?thesis
    by (simp only: wf_db_iff)
qed

lemma wf_updateRanks_from:
  assumes "wf_db hosted db"
  shows "wf_db hosted (snd (updateRanks_from hosted fa clock i db ranks))"
  using assms
proof (induction ranks arbitrary: db i)
  case Nil
  then show ?case by simp
next
  case (Cons p ranks)
  obtain k rk where p: "p = (k, rk)" by (cases p)
  show ?case
  proof (cases "fa = Some i")
    case True
    with Cons.prems show ?thesis by (simp add: p)
  next
    case False
    show ?thesis
    proof (cases "update_rank hosted (clock i) db k rk")
      case (Inl e)
      with False Cons.prems show ?thesis by (simp add: p)
    next
      case (Inr db')
      from Cons.IH [OF wf_update_rank [OF Cons.prems Inr]] False Inr show ?thesis
        by (simp add: p)
    qed
  qed
qed

lemma wf_step:
  assumes "wf_db hosted db"
  shows "wf_db hosted (step hosted db c)"
proof (cases c)
  case (Create fa now item)
  with assms show ?thesis by (simp add: wf_create)
next
  case (Update fa now k item)
  with assms show ?thesis by (simp add: wf_update)
next
  case (UpdateRanks fa clock ranks)
  with assms show ?thesis by (simp add: updateRanks_def wf_updateRanks_from)
next
  case (Remove fa k)
  with assms show ?thesis by (simp add: wf_remove)
next
  case (Post fa now json)
  with assms show ?thesis
    by (cases json) (simp_all add: snd_POST wf_create, simp add: POST_def)
next
  case (Put fa now seg json)
  with assms show ?thesis
    by (cases json) (simp_all add: snd_PUT wf_update, simp add: PUT_def)
next
  case (Patch fa clock json)
  show ?thesis
  proof (cases json)
    case None
    with Patch assms show ?thesis by (simp add: PATCH_def)
  next
    case (Some given)
    with Patch assms show ?thesis
      by (cases given) (simp_all add: snd_PATCH updateRanks_def wf_updateRanks_from, simp_all add: PATCH_def)
  qed
next
  case (Delete fa seg)
  with assms show ?thesis by (simp add: snd_DELETE wf_remove)
qed

lemma wf_run:
  assumes "wf_db hosted db"
  shows "wf_db hosted (run hosted calls db)"
  using assms unfolding run_def
  by (induction calls arbitrary: db) (simp_all add: wf_step)

lemma wf_reachable: "wf_db hosted (run hosted calls empty_db)"
  by (rule wf_run [OF wf_empty_db])

section \<open>Two records of equal rank, reordered\<close>

lemma POST_second:
  "snd (POST hosted None 6 post_db (Some tokyo_body)) = two_db"
proof -
  have "insert_row hosted 6 post_db (insert_values (post_item tokyo_body)) = Inr (second_row, two_db)"
    by (simp add: insert_row_def insert_values_def post_item_def tokyo_body_def empty_partial_def
        post_row_def post_db_def second_row_def two_db_def coerce_values_def store_integer_def
        store_decimal_def is_int4_def pg_round_0)
  from create_no_fault [OF wf_post_db this] show ?thesis
    by (simp add: snd_POST tokyo_body_def empty_partial_def)
qed

lemma two_db_reached:
  "run hosted [Post None 5 (Some tokyo_body), Post None 6 (Some tokyo_body)] empty_db = two_db"
  by (simp add: run_def POST_tokyo POST_second)

lemma listing_keys:
  "listing hosted pos db = map as_listed (order_keys pos (map key_rank (table db)))"
  by (simp only: listing_def getAll_keys)

lemma listing_reordered:
  "listing hosted pos (reordered hosted clock db ps) =
     map as_listed (order_keys pos
       (map (\<lambda>r. (col_id r, rank_after hosted ps (col_id r) (col_rank r))) (table db)))"
  by (simp only: listing_keys reordered_def updateRanks_def key_rank_updateRanks_from)

lemma reordered_twice_keys:
  "map key_rank (table (reordered hosted clock2 (reordered hosted clock1 db ps) ps)) =
   map key_rank (table (reordered hosted clock1 db ps))"
  by (simp only: reordered_def updateRanks_twice_keys)

lemma listing_tie:
  "listing hosted first_read (reordered hosted clock two_db tie_batch) =
     [(JNum (Num 1), JNum (Num 1)), (JNum (Num 2), JNum (Num 1))]"
  "listing hosted second_read (reordered hosted clock two_db tie_batch) =
     [(JNum (Num 2), JNum (Num 1)), (JNum (Num 1), JNum (Num 1))]"
  by (simp_all add: listing_reordered two_db_def post_row_def second_row_def tie_batch_def
      pair_rejected_def is_int4_def order_keys_def first_read_def second_read_def as_listed_def)

lemma listing_swap:
  "listing hosted pos (reordered hosted clock two_db swap_batch) =
     [(JNum (Num 2), JNum (Num 1)), (JNum (Num 1), JNum (Num 2))]"
  by (simp add: listing_reordered two_db_def post_row_def second_row_def swap_batch_def
      pair_rejected_def is_int4_def order_keys_def as_listed_def)

section \<open>The outcomes of a \<open>POST\<close>, field by field\<close>














section \<open>Create, then read back\<close>

text \<open>
  C1 (as amended). On a well-formed store (every store reached from the empty one is
  well-formed, lemma \<open>wf_reachable\<close>), when \<open>create\<close> returns, it returns a record
  that \<open>getById\<close> of its id reads back: id and both timestamps are set, rank, texts and
  image_url are the input's (an absent or empty image_url is \<open>null\<close>), and latitude and
  longitude are the input's on the local backend and the input's rounded to eight
  decimals on the hosted backend.
\<close>

theorem create_then_getById:
  assumes "wf_db hosted db" and "create hosted fa now db item = (Inr res, db')"
  shows "\<exists>rec k. res = Some rec \<and>
           getById hosted None db' (Num (rat_of_int k)) = Some rec \<and>
           id' rec = JNum (Num (rat_of_int k)) \<and>
           created_at rec = Some now \<and> updated_at rec = Some now \<and>
           rank rec = JNum (Num (new_rank item)) \<and>
           destination rec = new_destination item \<and> country rec = new_country item \<and>
           latitude rec = JNum (Num (if hosted then pg_round 8 (new_latitude item) else new_latitude item)) \<and>
           longitude rec = JNum (Num (if hosted then pg_round 8 (new_longitude item) else new_longitude item)) \<and>
           reason rec = new_reason item \<and> budget rec = new_budget item \<and>
           timeline rec = new_timeline item \<and>
           image_url rec = or_null (new_image_url item)"
proof -
  from create_Inr [OF assms] obtain r
    where ins: "insert_row hosted now db (insert_values item) = Inr (r, db')"
      and res: "res = Some (driver_row False r)"
      and get: "getById hosted None db' (Num (rat_of_int (col_id r))) = Some (driver_row False r)"
    by blast
  note i = insert_row_Inr [OF ins]
  note c = created_fields [OF ins]
  show ?thesis
    apply (rule exI [of _ "driver_row False r"])
    apply (rule exI [of _ "col_id r"])
    apply (simp add: res get)
    apply (simp add: driver_row_def i(3,4) c)
    done
qed

theorem create_then_getById_witness:
  "wf_db True empty_db \<and>
   create True None 5 empty_db tokyo_item = (Inr (Some tokyo_record), tokyo_db) \<and>
   (\<exists>rec k. Some tokyo_record = Some rec \<and>
           getById True None tokyo_db (Num (rat_of_int k)) = Some rec \<and>
           id' rec = JNum (Num (rat_of_int k)) \<and>
           created_at rec = Some 5 \<and> updated_at rec = Some 5 \<and>
           rank rec = JNum (Num (new_rank tokyo_item)) \<and>
           destination rec = new_destination tokyo_item \<and> country rec = new_country tokyo_item \<and>
           latitude rec = JNum (Num (if True then pg_round 8 (new_latitude tokyo_item) else new_latitude tokyo_item)) \<and>
           longitude rec = JNum (Num (if True then pg_round 8 (new_longitude tokyo_item) else new_longitude tokyo_item)) \<and>
           reason rec = new_reason tokyo_item \<and> budget rec = new_budget tokyo_item \<and>
           timeline rec = new_timeline tokyo_item \<and>
           image_url rec = or_null (new_image_url tokyo_item))"
proof -
  have h1: "wf_db True empty_db" by (rule wf_empty_db)
  have h2: "create True None 5 empty_db tokyo_item = (Inr (Some tokyo_record), tokyo_db)"
    by (rule create_tokyo)
  from create_then_getById [OF h1 h2] h1 h2 show ?thesis
    by (intro conjI)
qed

theorem create_then_getById_counterexample:
  "create True None 5 empty_db fine_item = (Inr (Some fine_record), fine_db) \<and>
   getById True None fine_db (Num 1) = Some fine_record \<and>
   latitude fine_record \<noteq> JNum (Num (new_latitude fine_item))"
proof -
  have c: "create True None 5 empty_db fine_item = (Inr (Some fine_record), fine_db)"
    using create_no_fault [OF wf_empty_db insert_fine] by (simp add: driver_fine)
  have "col_id fine_row = 1"
    by (simp add: fine_row_def tokyo_row_def)
  then have g: "getById True None fine_db (Num 1) = Some fine_record"
    using create_Inr [OF wf_empty_db c] insert_fine by (auto simp: driver_fine)
  have "latitude fine_record \<noteq> JNum (Num (new_latitude fine_item))"
    by (simp add: fine_record_def fine_item_def)
  with c g show ?thesis by simp
qed

section \<open>The rank invariant\<close>

text \<open>
  C2 (as amended). Starting from the empty store, after any sequence of adapter calls and
  requests in which every rank supplied is at least 1 (a \<open>POST\<close> may also omit the rank,
  or send 0 or \<open>null\<close>: the handler then supplies 1), every stored record has rank at
  least 1, on either backend and whatever fails.
\<close>

theorem ranks_stay_positive:
  "list_all ranks_ok calls \<Longrightarrow> ranks_positive (run hosted calls empty_db)"
  by (rule run_ranks_positive) (simp_all add: ranks_positive_def empty_db_def)

theorem ranks_stay_positive_witness:
  "list_all ranks_ok [Post None 5 (Some tokyo_body), Patch None const_clock (Some (RanksArray [(1, 2)])),
      Put None 7 ''1'' (Some tokyo_body), Create None 8 tokyo_item] \<and>
   ranks_positive (run True [Post None 5 (Some tokyo_body), Patch None const_clock (Some (RanksArray [(1, 2)])),
      Put None 7 ''1'' (Some tokyo_body), Create None 8 tokyo_item] empty_db)"
proof -
  have h: "list_all ranks_ok [Post None 5 (Some tokyo_body), Patch None const_clock (Some (RanksArray [(1, 2)])),
      Put None 7 ''1'' (Some tokyo_body), Create None 8 tokyo_item]"
    by (simp add: tokyo_body_def empty_partial_def tokyo_item_def pairs_ok_def)
  from ranks_stay_positive [OF h, of True] h show ?thesis
    by (intro conjI)
qed

theorem ranks_stay_positive_counterexample:
  "map col_rank (table (run False [Post None 5 (Some tokyo_body),
       Patch None const_clock (Some (RanksArray [(1, 0)]))] empty_db)) = [0] \<and>
   map col_rank (table (run True [Post None 5 (Some tokyo_body),
       Patch None const_clock (Some (RanksArray [(1, 0)]))] empty_db)) = [0] \<and>
   map col_rank (table (run False [Post None 5 (Some negative_rank_body)] empty_db)) = [- 1] \<and>
   \<not> ranks_positive (run False [Post None 5 (Some tokyo_body),
       Patch None const_clock (Some (RanksArray [(1, 0)]))] empty_db)"
  by (simp add: run_def POST_tokyo snd_PATCH updateRanks_zero POST_negative_rank ranks_positive_def)

section \<open>Failed writes at the resource layer\<close>

text \<open>
  C3 (the code at the failing input). The store holds record 1. A \<open>PUT\<close> to it with a
  valid body is answered 404 "Destination not found" when the \<open>UPDATE\<close> statement fails
  in the backend, and when the body sets rank to \<open>null\<close>, which the \<open>NOT NULL\<close> column
  rejects; the record is still there. A backend failure in \<open>create\<close> or
  \<open>updateRanks\<close> is answered 500.
\<close>

theorem PUT_failure_is_404:
  "getById hosted None post_db (Num 1) = Some post_record \<and>
   PUT hosted (Some 1) 7 post_db ''1'' (Some tokyo_body) =
     (Response 404 (Error ''Destination not found''), post_db) \<and>
   PUT hosted None 7 post_db ''1'' (Some null_rank_body) =
     (Response 404 (Error ''Destination not found''), post_db) \<and>
   POST hosted (Some 0) 7 post_db (Some tokyo_body) =
     (Response 500 (Error ''Failed to create travel destination''), post_db) \<and>
   PATCH hosted (Some 0) clock post_db (Some (RanksArray [(1, 2)])) =
     (Response 500 (Error ''Failed to update ranks''), post_db)"
proof -
  have valid: "\<not> falsy_str (p_destination tokyo_body)" "\<not> falsy_str (p_country tokyo_body)"
    "\<not> falsy_str (p_destination null_rank_body)" "\<not> falsy_str (p_country null_rank_body)"
    by (simp_all add: null_rank_body_def tokyo_body_def empty_partial_def)
  have null: "p_rank \<lparr>p_rank = p_rank null_rank_body, p_destination = p_destination null_rank_body,
      p_country = p_country null_rank_body, p_latitude = p_latitude null_rank_body,
      p_longitude = p_longitude null_rank_body, p_reason = p_reason null_rank_body,
      p_budget = p_budget null_rank_body, p_timeline = p_timeline null_rank_body,
      p_image_url = p_image_url null_rank_body\<rparr> = Null"
    by (simp add: null_rank_body_def)
  have "PUT hosted (Some 1) 7 post_db ''1'' (Some tokyo_body) =
     (Response 404 (Error ''Destination not found''), post_db)"
    using valid by (simp add: PUT_def update_fault)
  moreover have "PUT hosted None 7 post_db ''1'' (Some null_rank_body) =
     (Response 404 (Error ''Destination not found''), post_db)"
    using valid by (simp add: PUT_def parseInt_1 update_null_rank [OF getById_post null])
  moreover have "POST hosted (Some 0) 7 post_db (Some tokyo_body) =
     (Response 500 (Error ''Failed to create travel destination''), post_db)"
    using valid by (simp add: POST_def create_def)
  moreover have "PATCH hosted (Some 0) clock post_db (Some (RanksArray [(1, 2)])) =
     (Response 500 (Error ''Failed to update ranks''), post_db)"
    by (simp add: PATCH_def updateRanks_def)
  ultimately show ?thesis
    by (simp add: getById_post)
qed

section \<open>Listings are sorted\<close>

text \<open>
  C4. After any sequence of adapter calls and requests, on either backend, \<open>getAll\<close>
  returns a list in ascending order of rank, whether or not its own statement fails and
  in whatever order the backend reads rows of equal rank; when it does not fail, the list
  holds exactly the current records.
\<close>

theorem getAll_sorted_by_rank:
  "ascending_by_rank (getAll hosted fa pos (run hosted calls empty_db)) \<and>
   mset (getAll hosted None pos (run hosted calls empty_db)) =
     image_mset (returned_row hosted) (mset (table (run hosted calls empty_db)))"
proof
  show "ascending_by_rank (getAll hosted fa pos (run hosted calls empty_db))"
    by (simp add: getAll_returned ascending_returned sorted_select_all)
      (simp add: ascending_by_rank_def)
  show "mset (getAll hosted None pos (run hosted calls empty_db)) =
     image_mset (returned_row hosted) (mset (table (run hosted calls empty_db)))"
    by (simp add: getAll_returned mset_select_all)
qed

section \<open>The round trip of the Tokyo record\<close>

text \<open>
  C5. On either backend and any well-formed store (such is every store reached from the
  empty one, lemma \<open>wf_reachable\<close>), creating a record with destination
  Tokyo, country Japan, latitude 35.6762 and longitude 139.6503 succeeds (on the hosted
  backend given an integer rank and key in the 32-bit range), and the record returned, read
  by \<open>getById\<close> and listed by \<open>getAll\<close> has that destination and country and the
  numbers 35.6762 and 139.6503 as latitude and longitude, not strings.
\<close>

theorem tokyo_round_trip:
  assumes "wf_db hosted db"
    and "new_destination item = ''Tokyo''" and "new_country item = ''Japan''"
    and "new_latitude item = 356762 / 10000" and "new_longitude item = 1396503 / 10000"
    and "hosted \<longrightarrow> is_int4 (new_rank item) \<and> is_int4 (rat_of_int (next_id db))"
  shows "\<exists>rec db'. create hosted None now db item = (Inr (Some rec), db') \<and>
           getById hosted None db' (Num (rat_of_int (next_id db))) = Some rec \<and>
           rec \<in> set (getAll hosted None pos db') \<and>
           destination rec = ''Tokyo'' \<and> country rec = ''Japan'' \<and>
           latitude rec = JNum (Num (356762 / 10000)) \<and>
           longitude rec = JNum (Num (1396503 / 10000))"
proof -
  have rla: "pg_round 8 (new_latitude item) = 356762 / 10000"
    by (simp only: assms(4) pg_round_tokyo_latitude)
  have rlo: "pg_round 8 (new_longitude item) = 1396503 / 10000"
    by (simp only: assms(5) pg_round_tokyo_longitude)
  have "hosted \<longrightarrow> is_int4 (rat_of_int (next_id db)) \<and> is_int4 (new_rank item) \<and>
             \<bar>pg_round 8 (new_latitude item)\<bar> < 100 \<and> \<bar>pg_round 8 (new_longitude item)\<bar> < 1000"
    using assms(6) by (simp add: rla rlo)
  from insert_row_succeeds [OF this] obtain r db'
    where ins: "insert_row hosted now db (insert_values item) = Inr (r, db')"
    by blast
  note c = create_no_fault [OF assms(1) ins]
  note i = insert_row_Inr [OF ins]
  note f = created_fields [OF ins]
  from create_Inr [OF assms(1) c]
  have get: "getById hosted None db' (Num (rat_of_int (next_id db))) = Some (driver_row False r)"
    using ins i(2) by auto
  have "r \<in> set (table db')"
    by (simp add: i(1))
  then have mem: "driver_row False r \<in> set (getAll hosted None pos db')"
    by (simp add: getAll_no_fault_wf [OF wf_insert_row [OF assms(1) ins]])
  have la: "col_latitude r = 356762 / 10000" and lo: "col_longitude r = 1396503 / 10000"
    using f(8,9) by (simp_all add: rla rlo) (simp_all add: assms(4,5))
  show ?thesis
    apply (rule exI [of _ "driver_row False r"])
    apply (rule exI [of _ db'])
    apply (simp add: c get mem)
    apply (simp add: driver_row_def f(2,3) assms(2,3) la lo)
    done
qed

theorem tokyo_round_trip_witness:
  "wf_db True empty_db \<and>
   new_destination tokyo_item = ''Tokyo'' \<and> new_country tokyo_item = ''Japan'' \<and>
   new_latitude tokyo_item = 356762 / 10000 \<and> new_longitude tokyo_item = 1396503 / 10000 \<and>
   is_int4 (new_rank tokyo_item) \<and> is_int4 (rat_of_int (next_id empty_db)) \<and>
   (\<exists>rec db'. create True None 5 empty_db tokyo_item = (Inr (Some rec), db') \<and>
           getById True None db' (Num (rat_of_int (next_id empty_db))) = Some rec \<and>
           rec \<in> set (getAll True None nat db') \<and>
           destination rec = ''Tokyo'' \<and> country rec = ''Japan'' \<and>
           latitude rec = JNum (Num (356762 / 10000)) \<and>
           longitude rec = JNum (Num (1396503 / 10000)))"
proof -
  have h1: "wf_db True empty_db" by (rule wf_empty_db)
  have h2: "new_destination tokyo_item = ''Tokyo''" "new_country tokyo_item = ''Japan''"
    "new_latitude tokyo_item = 356762 / 10000" "new_longitude tokyo_item = 1396503 / 10000"
    by (simp_all add: tokyo_item_def)
  have h3: "True \<longrightarrow> is_int4 (new_rank tokyo_item) \<and> is_int4 (rat_of_int (next_id empty_db))"
    by (simp add: tokyo_item_def empty_db_def is_int4_def)
  from h3 have h4: "is_int4 (new_rank tokyo_item)" "is_int4 (rat_of_int (next_id empty_db))"
    by simp_all
  from tokyo_round_trip [OF h1 h2 h3, of 5 nat] h1 h2 h4 show ?thesis
    by (intro conjI)
qed

section \<open>The frame of an empty update\<close>

text \<open>
  C6 (as amended). On a well-formed store (such is every store reached from the empty
  one, lemma \<open>wf_reachable\<close>), for an id that \<open>getById\<close> finds,
  \<open>update(id, {})\<close> leaves every field of every record except \<open>updated_at\<close> as it
  was, whatever fails; when the backend does not fail it returns the record with
  \<open>updated_at\<close> set to the clock reading of the \<open>UPDATE\<close>, all other fields as
  before, and \<open>getById\<close> then reads the same record. So \<open>updated_at\<close> is later than
  before exactly when that clock reading is later than the stored one.
\<close>

theorem update_empty_partial_frame:
  assumes "wf_db hosted db" and "getById hosted None db k = Some existing"
  shows "map (\<lambda>r. r\<lparr>col_updated_at := None\<rparr>) (table (snd (update hosted fa now db k empty_partial))) =
           map (\<lambda>r. r\<lparr>col_updated_at := None\<rparr>) (table db) \<and>
         next_id (snd (update hosted fa now db k empty_partial)) = next_id db \<and>
         fst (update hosted None now db k empty_partial) = Some (existing\<lparr>updated_at := Some now\<rparr>) \<and>
         getById hosted None (snd (update hosted None now db k empty_partial)) k =
           Some (existing\<lparr>updated_at := Some now\<rparr>)"
proof -
  from update_empty_partial [OF assms, of now] obtain r0
    where "r0 \<in> set (table db)" and "existing = driver_row False r0"
      and res: "update hosted None now db k empty_partial =
           (Some (existing\<lparr>updated_at := Some now\<rparr>),
            db\<lparr>table := map (touch now (col_id r0)) (table db)\<rparr>)"
      and get: "getById hosted None (db\<lparr>table := map (touch now (col_id r0)) (table db)\<rparr>) k =
           Some (existing\<lparr>updated_at := Some now\<rparr>)"
      and any: "\<forall>fa. snd (update hosted fa now db k empty_partial) = db \<or>
           snd (update hosted fa now db k empty_partial) =
             db\<lparr>table := map (touch now (col_id r0)) (table db)\<rparr>"
    by (elim exE conjE) (rule that; assumption)
  have frame: "map (\<lambda>r. r\<lparr>col_updated_at := None\<rparr>) (table d) =
           map (\<lambda>r. r\<lparr>col_updated_at := None\<rparr>) (table db) \<and> next_id d = next_id db"
    if "d = db \<or> d = db\<lparr>table := map (touch now (col_id r0)) (table db)\<rparr>" for d
    using that by (elim disjE) (simp_all add: touch_frame comp_def)
  have r1: "fst (update hosted None now db k empty_partial) = Some (existing\<lparr>updated_at := Some now\<rparr>)"
    by (simp only: res fst_conv)
  have r2: "getById hosted None (snd (update hosted None now db k empty_partial)) k =
           Some (existing\<lparr>updated_at := Some now\<rparr>)"
    by (simp only: res snd_conv get)
  from any have "snd (update hosted fa now db k empty_partial) = db \<or>
           snd (update hosted fa now db k empty_partial) =
             db\<lparr>table := map (touch now (col_id r0)) (table db)\<rparr>" ..
  from frame [OF this] r1 r2 show ?thesis
    by blast
qed

theorem update_empty_partial_frame_witness:
  "wf_db True post_db \<and> getById True None post_db (Num 1) = Some post_record \<and>
   map (\<lambda>r. r\<lparr>col_updated_at := None\<rparr>) (table (snd (update True None 7 post_db (Num 1) empty_partial))) =
     map (\<lambda>r. r\<lparr>col_updated_at := None\<rparr>) (table post_db) \<and>
   next_id (snd (update True None 7 post_db (Num 1) empty_partial)) = next_id post_db \<and>
   fst (update True None 7 post_db (Num 1) empty_partial) = Some (post_record\<lparr>updated_at := Some 7\<rparr>) \<and>
   getById True None (snd (update True None 7 post_db (Num 1) empty_partial)) (Num 1) =
     Some (post_record\<lparr>updated_at := Some 7\<rparr>)"
proof -
  have h1: "wf_db True post_db" by (rule wf_post_db)
  have h2: "getById True None post_db (Num 1) = Some post_record" by (rule getById_post)
  note c = update_empty_partial_frame [OF h1 h2, of None 7]
  from h1 h2 c show ?thesis
    by blast
qed

theorem update_empty_partial_frame_counterexample:
  "getById False None post_db (Num 1) = Some post_record \<and>
   updated_at post_record = Some 5 \<and>
   update False None 5 post_db (Num 1) empty_partial = (Some post_record, post_db) \<and>
   getById False None post_db (Num 1) = Some post_record"
proof -
  have g: "getById False None post_db (Num 1) = Some post_record" by (rule getById_post)
  from update_empty_partial [OF wf_post_db g, of 5] obtain r0
    where r0: "r0 \<in> set (table post_db)" and "post_record = driver_row False r0"
      and res: "update False None 5 post_db (Num 1) empty_partial =
           (Some (post_record\<lparr>updated_at := Some 5\<rparr>),
            post_db\<lparr>table := map (touch 5 (col_id r0)) (table post_db)\<rparr>)"
      and "getById False None (post_db\<lparr>table := map (touch 5 (col_id r0)) (table post_db)\<rparr>) (Num 1) =
           Some (post_record\<lparr>updated_at := Some 5\<rparr>)"
      and "\<forall>fa. snd (update False fa 5 post_db (Num 1) empty_partial) = post_db \<or>
           snd (update False fa 5 post_db (Num 1) empty_partial) =
             post_db\<lparr>table := map (touch 5 (col_id r0)) (table post_db)\<rparr>"
    by (elim exE conjE) (rule that; assumption)
  from r0 have "r0 = post_row" by (simp add: post_db_def)
  then have "post_db\<lparr>table := map (touch 5 (col_id r0)) (table post_db)\<rparr> = post_db"
    by (simp add: post_db_def post_row_def touch_def)
  moreover have "post_record\<lparr>updated_at := Some 5\<rparr> = post_record"
    by (simp add: post_record_def)
  ultimately have "update False None 5 post_db (Num 1) empty_partial = (Some post_record, post_db)"
    using res by (simp only:)
  moreover have "updated_at post_record = Some 5"
    by (simp add: post_record_def)
  ultimately show ?thesis
    using g by blast
qed

section \<open>Reordering twice\<close>

text \<open>
  C7. For every list of (id, rank) pairs, on either backend and with no backend failure,
  applying \<open>updateRanks\<close> with the list a second time returns the same flag as the
  first time and leaves every record with the rank it had after the first time, so that
  \<open>getAll\<close> returns the same records with the same ranks. The order of the list is the
  same as after the first time whenever the backend reads rows of equal rank in the same
  order at both queries, and, whatever order it reads them in, whenever no two records
  have the same rank. (Nothing in \<open>ORDER BY rank ASC\<close> fixes the order of two records of
  equal rank, and a rank update may change the order in which the backend reads them.)
\<close>

theorem updateRanks_twice_same_ranks:
  "fst (updateRanks hosted None clock2 (reordered hosted clock1 db ranks) ranks) =
     fst (updateRanks hosted None clock1 db ranks) \<and>
   mset (listing hosted pos2 (reordered hosted clock2 (reordered hosted clock1 db ranks) ranks)) =
     mset (listing hosted pos1 (reordered hosted clock1 db ranks)) \<and>
   listing hosted pos (reordered hosted clock2 (reordered hosted clock1 db ranks) ranks) =
     listing hosted pos (reordered hosted clock1 db ranks) \<and>
   (distinct (map snd (listing hosted pos1 (reordered hosted clock1 db ranks))) \<longrightarrow>
      listing hosted pos2 (reordered hosted clock2 (reordered hosted clock1 db ranks) ranks) =
        listing hosted pos1 (reordered hosted clock1 db ranks))"
proof (intro conjI impI)
  let ?once = "reordered hosted clock1 db ranks"
  let ?twice = "reordered hosted clock2 ?once ranks"
  let ?ks = "map key_rank (table ?once)"
  have keys: "map key_rank (table ?twice) = ?ks"
    by (rule reordered_twice_keys)
  show "fst (updateRanks hosted None clock2 ?once ranks) = fst (updateRanks hosted None clock1 db ranks)"
    by (simp add: updateRanks_def fst_updateRanks_from)
  show "mset (listing hosted pos2 ?twice) = mset (listing hosted pos1 ?once)"
    by (simp only: listing_keys keys mset_map mset_order_keys)
  show "listing hosted pos ?twice = listing hosted pos ?once"
    by (simp only: listing_keys keys)
  assume "distinct (map snd (listing hosted pos1 ?once))"
  then have "distinct (map (\<lambda>p. JNum (Num (snd p))) (order_keys pos1 ?ks))"
    by (simp add: listing_keys as_listed_def comp_def)
  then have "distinct (map snd (order_keys pos1 ?ks))"
    by (simp add: distinct_map inj_on_def)
  from order_keys_unique [OF this, of pos2]
  show "listing hosted pos2 ?twice = listing hosted pos1 ?once"
    by (simp only: listing_keys keys)
qed

theorem updateRanks_twice_same_ranks_witness:
  "distinct (map snd (listing True first_read (reordered True const_clock two_db swap_batch))) \<and>
   listing True second_read
     (reordered True const_clock (reordered True const_clock two_db swap_batch) swap_batch) =
     listing True first_read (reordered True const_clock two_db swap_batch) \<and>
   listing True first_read (reordered True const_clock two_db swap_batch) =
     [(JNum (Num 2), JNum (Num 1)), (JNum (Num 1), JNum (Num 2))]"
proof -
  have h: "distinct (map snd (listing True first_read (reordered True const_clock two_db swap_batch)))"
    by (simp add: listing_swap)
  from updateRanks_twice_same_ranks [where hosted = True and ?clock1.0 = const_clock
      and ?clock2.0 = const_clock and db = two_db and ranks = swap_batch
      and ?pos1.0 = first_read and ?pos2.0 = second_read and pos = first_read] h
  have "listing True second_read
     (reordered True const_clock (reordered True const_clock two_db swap_batch) swap_batch) =
     listing True first_read (reordered True const_clock two_db swap_batch)"
    by simp
  with h show ?thesis
    by (simp add: listing_swap)
qed

text \<open>
  Two records of rank 1 (the store after two \<open>POST\<close>s of a body without a rank), and the
  batch that gives both of them rank 1: the backend may list record 1 first after the
  first application and record 2 first after the second.
\<close>

theorem updateRanks_twice_same_ranks_counterexample:
  "run True [Post None 5 (Some tokyo_body), Post None 6 (Some tokyo_body)] empty_db = two_db \<and>
   listing True first_read (reordered True const_clock two_db tie_batch) =
     [(JNum (Num 1), JNum (Num 1)), (JNum (Num 2), JNum (Num 1))] \<and>
   listing True second_read
     (reordered True const_clock (reordered True const_clock two_db tie_batch) tie_batch) =
     [(JNum (Num 2), JNum (Num 1)), (JNum (Num 1), JNum (Num 1))]"
proof -
  have keys: "map key_rank (table (reordered True const_clock (reordered True const_clock two_db tie_batch) tie_batch)) =
      map key_rank (table (reordered True const_clock two_db tie_batch))"
    by (rule reordered_twice_keys)
  have "listing True second_read
      (reordered True const_clock (reordered True const_clock two_db tie_batch) tie_batch) =
      listing True second_read (reordered True const_clock two_db tie_batch)"
    by (simp only: listing_keys keys)
  then show ?thesis
    by (simp add: two_db_reached listing_tie)
qed

section \<open>Create requests\<close>




section \<open>Item requests for an unknown id\<close>

text \<open>
  C9. When the id path segment does not parse (by \<open>parseInt\<close>, non-numeric text giving
  \<open>NaN\<close>) to the id of a stored record, \<open>GET\<close>, \<open>PUT\<close> with a body that has a
  destination and a country, and \<open>DELETE\<close> answer 404 and leave the store as it was, on
  either backend and whether or not the backend fails.
\<close>

theorem unknown_id_is_404:
  assumes "\<forall>r\<in>set (table db). parseInt seg None \<noteq> Num (rat_of_int (col_id r))"
    and "\<not> falsy_str (p_destination body)" and "\<not> falsy_str (p_country body)"
  shows "GET_item hosted fa db seg = (Response 404 (Error ''Destination not found''), db) \<and>
         PUT hosted fa now db seg (Some body) = (Response 404 (Error ''Destination not found''), db) \<and>
         DELETE hosted fa db seg = (Response 404 (Error ''Destination not found''), db)"
  using assms(2,3)
  by (simp add: GET_item_def PUT_def DELETE_def getById_unknown [OF assms(1)]
      update_unknown [OF assms(1)] remove_unknown [OF assms(1)])

theorem unknown_id_is_404_witness:
  "parseInt ''abc'' None = NaN \<and>
   \<not> falsy_str (p_destination tokyo_body) \<and> \<not> falsy_str (p_country tokyo_body) \<and>
   GET_item True None post_db ''abc'' = (Response 404 (Error ''Destination not found''), post_db) \<and>
   PUT True None 7 post_db ''abc'' (Some tokyo_body) = (Response 404 (Error ''Destination not found''), post_db) \<and>
   DELETE True None post_db ''abc'' = (Response 404 (Error ''Destination not found''), post_db)"
proof -
  have p: "parseInt ''abc'' None = NaN"
    by (simp add: parseInt_def is_ws_def is_digit_in_def digit_of_def has_hex_prefix_def)
  have h1: "\<forall>r\<in>set (table post_db). parseInt ''abc'' None \<noteq> Num (rat_of_int (col_id r))"
    by (simp add: p)
  have h2: "\<not> falsy_str (p_destination tokyo_body)" and h3: "\<not> falsy_str (p_country tokyo_body)"
    by (simp_all add: tokyo_body_def empty_partial_def)
  from unknown_id_is_404 [OF h1 h2 h3, of True None 7] p h2 h3 show ?thesis
    by (intro conjI) simp_all
qed

section \<open>An absent image_url is stored as null\<close>

text \<open>
  C10. On a well-formed store (such is every store reached from the empty one, lemma
  \<open>wf_reachable\<close>), a record that \<open>create\<close> stores for an item whose
  image_url is absent or the empty string has image_url \<open>null\<close>, in the table and in the
  record returned; so has a record created by a \<open>POST\<close> whose body has no (or an empty
  or \<open>null\<close>) image_url, for which the handler passes the empty string.
\<close>

theorem create_image_url_null:
  assumes "wf_db hosted db"
  shows "(new_image_url item = None \<or> new_image_url item = Some [] \<longrightarrow>
          create hosted fa now db item = (Inr res, db') \<longrightarrow>
          (\<exists>rec r. res = Some rec \<and> image_url rec = None \<and> table db' = table db @ [r] \<and>
             col_image_url r = None)) \<and>
         (falsy_str (p_image_url body) \<longrightarrow>
          POST hosted fa2 now2 db (Some body) = (Response 201 (Item res2), db2) \<longrightarrow>
          (\<exists>rec r. res2 = Some rec \<and> image_url rec = None \<and> table db2 = table db @ [r] \<and>
             col_image_url r = None))"
proof (intro conjI impI)
  assume "new_image_url item = None \<or> new_image_url item = Some []"
    and c: "create hosted fa now db item = (Inr res, db')"
  then have "or_null (new_image_url item) = None" by auto
  from create_image_null [OF assms this c]
  show "\<exists>rec r. res = Some rec \<and> image_url rec = None \<and> table db' = table db @ [r] \<and>
             col_image_url r = None" .
next
  assume f: "falsy_str (p_image_url body)"
    and p: "POST hosted fa2 now2 db (Some body) = (Response 201 (Item res2), db2)"
  from f have "or_str (p_image_url body) [] = []"
    by (cases "p_image_url body") auto
  then have n: "or_null (new_image_url (post_item body)) = None"
    by (simp add: post_item_def)
  from p have "create hosted fa2 now2 db (post_item body) = (Inr res2, db2)"
    by (auto simp: POST_def split: if_splits prod.splits sum.splits)
  from create_image_null [OF assms n this]
  show "\<exists>rec r. res2 = Some rec \<and> image_url rec = None \<and> table db2 = table db @ [r] \<and>
             col_image_url r = None" .
qed

theorem create_image_url_null_witness:
  "wf_db True empty_db \<and>
   (new_image_url tokyo_item = None \<or> new_image_url tokyo_item = Some []) \<and>
   create True None 5 empty_db tokyo_item = (Inr (Some tokyo_record), tokyo_db) \<and>
   (\<exists>rec r. Some tokyo_record = Some rec \<and> image_url rec = None \<and>
      table tokyo_db = table empty_db @ [r] \<and> col_image_url r = None) \<and>
   falsy_str (p_image_url tokyo_body) \<and>
   POST True None 5 empty_db (Some tokyo_body) = (Response 201 (Item (Some post_record)), post_db) \<and>
   (\<exists>rec r. Some post_record = Some rec \<and> image_url rec = None \<and>
      table post_db = table empty_db @ [r] \<and> col_image_url r = None)"
proof -
  have h1: "wf_db True empty_db" by (rule wf_empty_db)
  have h2: "new_image_url tokyo_item = None \<or> new_image_url tokyo_item = Some []"
    by (simp add: tokyo_item_def)
  have h3: "create True None 5 empty_db tokyo_item = (Inr (Some tokyo_record), tokyo_db)"
    by (rule create_tokyo)
  have h4: "falsy_str (p_image_url tokyo_body)"
    by (simp add: tokyo_body_def empty_partial_def)
  have h5: "POST True None 5 empty_db (Some tokyo_body) = (Response 201 (Item (Some post_record)), post_db)"
    by (rule POST_tokyo)
  from create_image_url_null [OF h1, of tokyo_item None 5 "Some tokyo_record" tokyo_db
      tokyo_body None 5 "Some post_record" post_db] h1 h2 h3 h4 h5
  show ?thesis by blast
qed

end
